theory Spec2Isabelle
  imports Main
begin

section \<open>Data model\<close>

text \<open>
  A stored tag document, with the fields of \<^verbatim>\<open>TagService.apiFields\<close> (src/tag.ts:8-9):
  \<^verbatim>\<open>_id dId lId userId tag deleted encKey encConfig createTs updateTs deleteTs schemaVersion\<close>.
  The field \<^verbatim>\<open>_id\<close> is written \<open>doc_id\<close>. The types are those of the parameters of
  \<^verbatim>\<open>addTag\<close>, \<^verbatim>\<open>updateTag\<close> and \<^verbatim>\<open>deleteSoftTag\<close>: strings, a boolean, and
  timestamps that are JavaScript numbers holding integers (\<^verbatim>\<open>Date.now()\<close>), modelled as
  \<open>int\<close>. \<^verbatim>\<open>updateTs\<close> may be null (the filter of \<^verbatim>\<open>updateTag\<close> tests for it), and
  \<^verbatim>\<open>deleteTs\<close> is a string at \<^verbatim>\<open>deleteSoftTag\<close> (src/tag.ts:484) and absent before.
\<close>

record tag_doc =
  doc_id :: string
  dId :: string
  lId :: string
  userId :: string
  tag :: string
  deleted :: bool
  encKey :: string
  encConfig :: string
  createTs :: int
  updateTs :: "int option"
  deleteTs :: "string option"
  schemaVersion :: int

text \<open>
  The \<^verbatim>\<open>updates: Object\<close> argument of \<^verbatim>\<open>updateTag\<close> and the update documents passed to
  \<^verbatim>\<open>updateOne\<close>: an object that gives a new value to some of the fields. A field the
  object does not mention is \<open>None\<close>. \<^verbatim>\<open>_id\<close> is immutable in the store and is not
  among them.
\<close>

record tag_updates =
  u_dId :: "string option"
  u_lId :: "string option"
  u_userId :: "string option"
  u_tag :: "string option"
  u_deleted :: "bool option"
  u_encKey :: "string option"
  u_encConfig :: "string option"
  u_createTs :: "int option"
  u_updateTs :: "int option"
  u_deleteTs :: "string option"
  u_schemaVersion :: "int option"

text \<open>The empty object \<^verbatim>\<open>{}\<close>.\<close>

definition no_updates :: tag_updates where
  "no_updates =
     \<lparr>u_dId = None, u_lId = None, u_userId = None, u_tag = None, u_deleted = None,
      u_encKey = None, u_encConfig = None, u_createTs = None, u_updateTs = None,
      u_deleteTs = None, u_schemaVersion = None\<rparr>"

text \<open>The two collections, \<^verbatim>\<open>tagModel\<close> and \<^verbatim>\<open>tagSharedModel\<close>, in insertion order.\<close>

record db =
  tags :: "tag_doc list"
  tagsShared :: "tag_doc list"

section \<open>The document store\<close>

text \<open>The result object of \<^verbatim>\<open>updateOne\<close>.\<close>

record update_result =
  acknowledged :: bool
  matchedCount :: nat
  modifiedCount :: nat

text \<open>One field of a \<^verbatim>\<open>$set\<close>: the new value when the update names the field.\<close>

definition set_field :: "'a option \<Rightarrow> 'a \<Rightarrow> 'a" where
  "set_field new cur = (case new of None \<Rightarrow> cur | Some v \<Rightarrow> v)"

definition apply_updates :: "tag_updates \<Rightarrow> tag_doc \<Rightarrow> tag_doc" where
  "apply_updates u d =
     \<lparr>doc_id = doc_id d,
      dId = set_field (u_dId u) (dId d),
      lId = set_field (u_lId u) (lId d),
      userId = set_field (u_userId u) (userId d),
      tag = set_field (u_tag u) (tag d),
      deleted = set_field (u_deleted u) (deleted d),
      encKey = set_field (u_encKey u) (encKey d),
      encConfig = set_field (u_encConfig u) (encConfig d),
      createTs = set_field (u_createTs u) (createTs d),
      updateTs = (case u_updateTs u of None \<Rightarrow> updateTs d | Some t \<Rightarrow> Some t),
      deleteTs = (case u_deleteTs u of None \<Rightarrow> deleteTs d | Some t \<Rightarrow> Some t),
      schemaVersion = set_field (u_schemaVersion u) (schemaVersion d)\<rparr>"

text \<open>
  Modelled from the spec: the document store's
  \<^verbatim>\<open>updateOne(filter, fieldSet) \<rightarrow> {acknowledged, modifiedCount}\<close> (spec section 6), which
  src/tag.ts calls on \<^verbatim>\<open>tagModel\<close> and \<^verbatim>\<open>tagSharedModel\<close> (models/datadb/Tags, not in
  src/). It is one atomic conditional operation: the first document that satisfies the
  filter receives the field set; \<^verbatim>\<open>modifiedCount\<close> counts it only when a stored value
  changed ("a match that results in no field change ... no document was modified",
  spec section 4.1). The write is acknowledged; a storage fault is outside the model.
\<close>

fun updateOne ::
  "(tag_doc \<Rightarrow> bool) \<Rightarrow> tag_updates \<Rightarrow> tag_doc list \<Rightarrow> update_result \<times> tag_doc list" where
  "updateOne flt u [] = (\<lparr>acknowledged = True, matchedCount = 0, modifiedCount = 0\<rparr>, [])"
| "updateOne flt u (d # ds) =
     (if flt d
      then (\<lparr>acknowledged = True, matchedCount = 1,
             modifiedCount = (if apply_updates u d = d then 0 else 1)\<rparr>,
            apply_updates u d # ds)
      else (case updateOne flt u ds of (r, ds') \<Rightarrow> (r, d # ds')))"

text \<open>
  The query operator \<^verbatim>\<open>{ updateTs: { $lt: ts } }\<close>: a stored number below \<open>ts\<close>. A
  null field does not satisfy a comparison.
\<close>

definition lt_ts :: "int option \<Rightarrow> int \<Rightarrow> bool" where
  "lt_ts stored ts = (case stored of None \<Rightarrow> False | Some s \<Rightarrow> s < ts)"

section \<open>TagService\<close>

text \<open>
  The filter of \<^verbatim>\<open>updateTag\<close> and \<^verbatim>\<open>updateTagShared\<close> (src/tag.ts:347-352, 378-383):
  \<^verbatim>\<open>{ _id: tagId, userId: userId, deleted: false,
     $or: [{ updateTs: { $lt: updateTs } }, { updateTs: null }] }\<close>.
\<close>

definition update_filter :: "string \<Rightarrow> string \<Rightarrow> int \<Rightarrow> tag_doc \<Rightarrow> bool" where
  "update_filter uid tid ts d =
     (doc_id d = tid \<and> userId d = uid \<and> deleted d = False \<and>
      (lt_ts (updateTs d) ts \<or> updateTs d = None))"

text \<open>
  \<^verbatim>\<open>updateTag(userId, tagId, updates, updateTs)\<close> (src/tag.ts:340-361) with the timestamp
  given. The update document is \<^verbatim>\<open>{ ...updates, updateTs: updateTs }\<close>: the timestamp
  overrides an \<^verbatim>\<open>updateTs\<close> of \<^verbatim>\<open>updates\<close>.
\<close>

definition updateTag :: "string \<Rightarrow> string \<Rightarrow> tag_updates \<Rightarrow> int \<Rightarrow> db \<Rightarrow> bool \<times> db" where
  "updateTag uid tid updates ts s =
     (case updateOne (update_filter uid tid ts) (updates\<lparr>u_updateTs := Some ts\<rparr>) (tags s) of
        (result, c) \<Rightarrow>
          (if acknowledged result \<and> modifiedCount result > 0 then True else False,
           s\<lparr>tags := c\<rparr>))"

text \<open>
  The parameter is declared \<^verbatim>\<open>updateTs: number = Date.now()\<close>: a call that omits it runs
  with the clock value \<open>now\<close> of the moment of the call.
\<close>

definition updateTag_default :: "int \<Rightarrow> string \<Rightarrow> string \<Rightarrow> tag_updates \<Rightarrow> db \<Rightarrow> bool \<times> db" where
  "updateTag_default now uid tid updates s = updateTag uid tid updates now s"

text \<open>
  \<^verbatim>\<open>updateTagShared\<close> (src/tag.ts:371-392): the same call on \<^verbatim>\<open>tagSharedModel\<close>.
\<close>

definition updateTagShared ::
  "string \<Rightarrow> string \<Rightarrow> tag_updates \<Rightarrow> int \<Rightarrow> db \<Rightarrow> bool \<times> db" where
  "updateTagShared uid tid updates ts s =
     (case updateOne (update_filter uid tid ts) (updates\<lparr>u_updateTs := Some ts\<rparr>)
             (tagsShared s) of
        (result, c) \<Rightarrow>
          (if acknowledged result \<and> modifiedCount result > 0 then True else False,
           s\<lparr>tagsShared := c\<rparr>))"

definition updateTagShared_default ::
  "int \<Rightarrow> string \<Rightarrow> string \<Rightarrow> tag_updates \<Rightarrow> db \<Rightarrow> bool \<times> db" where
  "updateTagShared_default now uid tid updates s = updateTagShared uid tid updates now s"

text \<open>
  \<^verbatim>\<open>updateTagDetails\<close> (src/tag.ts:406-432) passes
  \<^verbatim>\<open>{ tag, encKey, encConfig, schemaVersion }\<close> to \<^verbatim>\<open>updateTag\<close>.
\<close>

definition updateTagDetails ::
  "string \<Rightarrow> string \<Rightarrow> string \<Rightarrow> string \<Rightarrow> string \<Rightarrow> int \<Rightarrow> int \<Rightarrow> db \<Rightarrow> bool \<times> db" where
  "updateTagDetails uid tid tg ek ec ts sv s =
     (case updateTag uid tid
             (no_updates\<lparr>u_tag := Some tg, u_encKey := Some ek, u_encConfig := Some ec,
                         u_schemaVersion := Some sv\<rparr>) ts s of
        (result, s') \<Rightarrow> (if result then True else False, s'))"

text \<open>\<^verbatim>\<open>updateTagDetailsShared\<close> (src/tag.ts:446-472), through \<^verbatim>\<open>updateTagShared\<close>.\<close>

definition updateTagDetailsShared ::
  "string \<Rightarrow> string \<Rightarrow> string \<Rightarrow> string \<Rightarrow> string \<Rightarrow> int \<Rightarrow> int \<Rightarrow> db \<Rightarrow> bool \<times> db" where
  "updateTagDetailsShared uid tid tg ek ec ts sv s =
     (case updateTagShared uid tid
             (no_updates\<lparr>u_tag := Some tg, u_encKey := Some ek, u_encConfig := Some ec,
                         u_schemaVersion := Some sv\<rparr>) ts s of
        (result, s') \<Rightarrow> (if result then True else False, s'))"

text \<open>
  \<^verbatim>\<open>deleteSoftTag\<close> (src/tag.ts:481-502): filter \<^verbatim>\<open>{ _id: tagId, userId: userId, deleted: false }\<close>,
  update \<^verbatim>\<open>{ tag: "", deleted: true, encKey: "", encConfig: "", deleteTs: deleteTs }\<close>.
\<close>

definition delete_filter :: "string \<Rightarrow> string \<Rightarrow> tag_doc \<Rightarrow> bool" where
  "delete_filter uid tid d = (doc_id d = tid \<and> userId d = uid \<and> deleted d = False)"

definition tombstone_updates :: "string \<Rightarrow> tag_updates" where
  "tombstone_updates dts =
     no_updates\<lparr>u_tag := Some [], u_deleted := Some True, u_encKey := Some [],
                u_encConfig := Some [], u_deleteTs := Some dts\<rparr>"

definition deleteSoftTag :: "string \<Rightarrow> string \<Rightarrow> string \<Rightarrow> db \<Rightarrow> bool \<times> db" where
  "deleteSoftTag uid tid dts s =
     (case updateOne (delete_filter uid tid) (tombstone_updates dts) (tags s) of
        (result, c) \<Rightarrow>
          (if acknowledged result \<and> modifiedCount result > 0 then True else False,
           s\<lparr>tags := c\<rparr>))"

subsection \<open>Reads\<close>

text \<open>
  What a read with a field selection returns: the selected fields of a document. A field
  outside the selection is \<open>None\<close>.
\<close>

record tag_view =
  v_id :: "string option"
  v_dId :: "string option"
  v_lId :: "string option"
  v_userId :: "string option"
  v_tag :: "string option"
  v_deleted :: "bool option"
  v_encKey :: "string option"
  v_encConfig :: "string option"
  v_createTs :: "int option"
  v_updateTs :: "int option option"
  v_deleteTs :: "string option option"
  v_schemaVersion :: "int option"

text \<open>\<^verbatim>\<open>TagService.apiFields\<close> (src/tag.ts:8-9), a space-separated list of field names.\<close>

definition apiFields :: string where
  "apiFields =
     ''_id dId lId userId tag deleted encKey encConfig createTs updateTs deleteTs schemaVersion''"

text \<open>
  Modelled from the spec: \<^verbatim>\<open>TagService.apiFieldsSync\<close> is read at src/tag.ts:243 and is
  not declared in src/tag.ts (it would come from \<^verbatim>\<open>CommonService\<close>, ./common, not in
  src/). Spec section 4.3: the sync read returns "every record including tombstones,
  full field set".
\<close>

definition apiFieldsSync :: string where
  "apiFieldsSync = apiFields"

text \<open>The names of a space-separated selection.\<close>

fun split_names :: "string \<Rightarrow> string \<Rightarrow> string list" where
  "split_names acc [] = (if acc = [] then [] else [acc])"
| "split_names acc (c # cs) =
     (if c = CHR '' ''
      then (if acc = [] then split_names [] cs else acc # split_names [] cs)
      else split_names (acc @ [c]) cs)"

definition selected :: "string \<Rightarrow> string \<Rightarrow> bool" where
  "selected sel name = (name \<in> set (split_names [] sel))"

text \<open>
  Modelled from the spec: the store's \<^verbatim>\<open>find(filter, projection?) \<rightarrow> document[]\<close> (spec
  section 6): the documents that satisfy the filter, in stored order, each cut down to
  the projection when one is given. \<^verbatim>\<open>_id\<close> is part of every inclusive projection.
\<close>

definition project :: "string \<Rightarrow> tag_doc \<Rightarrow> tag_view" where
  "project sel d =
     \<lparr>v_id = Some (doc_id d),
      v_dId = (if selected sel ''dId'' then Some (dId d) else None),
      v_lId = (if selected sel ''lId'' then Some (lId d) else None),
      v_userId = (if selected sel ''userId'' then Some (userId d) else None),
      v_tag = (if selected sel ''tag'' then Some (tag d) else None),
      v_deleted = (if selected sel ''deleted'' then Some (deleted d) else None),
      v_encKey = (if selected sel ''encKey'' then Some (encKey d) else None),
      v_encConfig = (if selected sel ''encConfig'' then Some (encConfig d) else None),
      v_createTs = (if selected sel ''createTs'' then Some (createTs d) else None),
      v_updateTs = (if selected sel ''updateTs'' then Some (updateTs d) else None),
      v_deleteTs = (if selected sel ''deleteTs'' then Some (deleteTs d) else None),
      v_schemaVersion =
        (if selected sel ''schemaVersion'' then Some (schemaVersion d) else None)\<rparr>"

definition find_docs :: "(tag_doc \<Rightarrow> bool) \<Rightarrow> tag_doc list \<Rightarrow> tag_doc list" where
  "find_docs flt c = filter flt c"

definition find_projected ::
  "(tag_doc \<Rightarrow> bool) \<Rightarrow> string \<Rightarrow> tag_doc list \<Rightarrow> tag_view list" where
  "find_projected flt sel c = map (project sel) (find_docs flt c)"

text \<open>
  The reads end with \<^verbatim>\<open>if (tags) { return tags; } else { return false; }\<close>. Every
  JavaScript array is truthy, the empty one too. The result \<^verbatim>\<open>false\<close> is \<open>None\<close>.
\<close>

definition truthy_array :: "'a list \<Rightarrow> bool" where
  "truthy_array xs = True"

text \<open>\<^verbatim>\<open>getAllCurrentTags\<close> (src/tag.ts:134-150).\<close>

definition getAllCurrentTags :: "string \<Rightarrow> db \<Rightarrow> tag_view list option" where
  "getAllCurrentTags uid s =
     (let tgs = find_projected (\<lambda>d. userId d = uid \<and> deleted d = False) apiFields (tags s)
      in if truthy_array tgs then Some tgs else None)"

text \<open>\<^verbatim>\<open>getAllTagsForBackup\<close> (src/tag.ts:158-171): no projection.\<close>

definition getAllTagsForBackup :: "string \<Rightarrow> db \<Rightarrow> tag_doc list option" where
  "getAllTagsForBackup uid s =
     (let tgs = find_docs (\<lambda>d. userId d = uid \<and> deleted d = False) (tags s)
      in if truthy_array tgs then Some tgs else None)"

text \<open>\<^verbatim>\<open>getAllTagsSync\<close> (src/tag.ts:236-251): filter \<^verbatim>\<open>{ userId: userId }\<close>.\<close>

definition getAllTagsSync :: "string \<Rightarrow> db \<Rightarrow> tag_view list option" where
  "getAllTagsSync uid s =
     (let tgs = find_projected (\<lambda>d. userId d = uid) apiFieldsSync (tags s)
      in if truthy_array tgs then Some tgs else None)"

subsection \<open>Bulk import\<close>

text \<open>
  A JavaScript value as \<^verbatim>\<open>addTagsFromJson\<close> holds one in \<^verbatim>\<open>success\<close>: a boolean, null,
  or a document. \<^verbatim>\<open>success &&= doc\<close> stores \<^verbatim>\<open>doc\<close> itself when \<^verbatim>\<open>success\<close> is truthy.
\<close>

datatype jsval = JBool bool | JNull | JDoc tag_doc

fun truthy :: "jsval \<Rightarrow> bool" where
  "truthy (JBool b) = b"
| "truthy JNull = False"
| "truthy (JDoc d) = True"

fun doc_val :: "tag_doc option \<Rightarrow> jsval" where
  "doc_val None = JNull"
| "doc_val (Some d) = JDoc d"

text \<open>
  Modelled from the spec: the store's \<^verbatim>\<open>insertOne(fields) \<rightarrow> document|null\<close> (spec section
  6), \<^verbatim>\<open>tagModel.create\<close> in src/tag.ts. Whether the store takes a document (schema
  validation, the unique index on \<^verbatim>\<open>_id\<close>) is its own decision, the parameter \<open>admit\<close>
  here: it sees the collection and the document. An admitted document is appended and
  returned; a refused one leaves the collection as it was and returns null.
\<close>

definition create ::
  "(tag_doc list \<Rightarrow> tag_doc \<Rightarrow> bool) \<Rightarrow> tag_doc \<Rightarrow> tag_doc list \<Rightarrow> tag_doc option \<times> tag_doc list" where
  "create admit d c = (if admit c d then (Some d, c @ [d]) else (None, c))"

text \<open>
  The document that one iteration of \<^verbatim>\<open>addTagsFromJson\<close> passes to \<^verbatim>\<open>create\<close>
  (src/tag.ts:62-75); \<open>t\<close> is the imported record and \<open>now\<close> the value of \<^verbatim>\<open>Date.now()\<close>.
\<close>

definition import_doc :: "tag_doc \<Rightarrow> int \<Rightarrow> tag_doc" where
  "import_doc t now =
     \<lparr>doc_id = doc_id t, dId = dId t, lId = lId t, userId = userId t, tag = tag t,
      deleted = deleted t, encKey = encKey t, encConfig = encConfig t,
      createTs = createTs t, updateTs = Some now, deleteTs = deleteTs t,
      schemaVersion = schemaVersion t\<rparr>"

text \<open>
  The loop of \<^verbatim>\<open>addTagsFromJson\<close> (src/tag.ts:61-82). \<open>clock k\<close> is what \<^verbatim>\<open>Date.now()\<close>
  returns in the \<open>k\<close>-th iteration from here.
\<close>

fun import_loop ::
  "(tag_doc list \<Rightarrow> tag_doc \<Rightarrow> bool) \<Rightarrow> (nat \<Rightarrow> int) \<Rightarrow> tag_doc list \<Rightarrow> jsval \<Rightarrow> db \<Rightarrow> jsval \<times> db" where
  "import_loop admit clock [] success s = (success, s)"
| "import_loop admit clock (t # ts) success s =
     (case create admit (import_doc t (clock 0)) (tags s) of
        (doc, c) \<Rightarrow>
          (let success' = (if truthy success then doc_val doc else success)
           in if \<not> truthy success' then (success', s\<lparr>tags := c\<rparr>)
              else import_loop admit (\<lambda>k. clock (Suc k)) ts success' (s\<lparr>tags := c\<rparr>)))"

text \<open>\<^verbatim>\<open>addTagsFromJson\<close> (src/tag.ts:58-85): \<^verbatim>\<open>success\<close> starts as \<^verbatim>\<open>true\<close>.\<close>

definition addTagsFromJson ::
  "(tag_doc list \<Rightarrow> tag_doc \<Rightarrow> bool) \<Rightarrow> (nat \<Rightarrow> int) \<Rightarrow> tag_doc list \<Rightarrow> db \<Rightarrow> jsval \<times> db" where
  "addTagsFromJson admit clock json s = import_loop admit clock json (JBool True) s"

section \<open>Notions used in the statements\<close>

text \<open>The store keeps \<^verbatim>\<open>_id\<close> unique within a collection (spec section 3).\<close>

definition unique_ids :: "tag_doc list \<Rightarrow> bool" where
  "unique_ids c = distinct (map doc_id c)"

text \<open>The collection with \<open>f\<close> applied to the document whose \<^verbatim>\<open>_id\<close> is \<open>i\<close>.\<close>

definition modify_doc :: "string \<Rightarrow> (tag_doc \<Rightarrow> tag_doc) \<Rightarrow> tag_doc list \<Rightarrow> tag_doc list" where
  "modify_doc i f c = map (\<lambda>x. if doc_id x = i then f x else x) c"

text \<open>
  The document holds the timestamp \<open>ts\<close> and, for each of the payload fields \<^verbatim>\<open>tag\<close>,
  \<^verbatim>\<open>encKey\<close>, \<^verbatim>\<open>encConfig\<close> and \<^verbatim>\<open>schemaVersion\<close> that the update supplies, the supplied value.
\<close>

definition carries :: "tag_updates \<Rightarrow> int \<Rightarrow> tag_doc \<Rightarrow> bool" where
  "carries ups ts d =
     (updateTs d = Some ts \<and>
      (case u_tag ups of None \<Rightarrow> True | Some v \<Rightarrow> tag d = v) \<and>
      (case u_encKey ups of None \<Rightarrow> True | Some v \<Rightarrow> encKey d = v) \<and>
      (case u_encConfig ups of None \<Rightarrow> True | Some v \<Rightarrow> encConfig d = v) \<and>
      (case u_schemaVersion ups of None \<Rightarrow> True | Some v \<Rightarrow> schemaVersion d = v))"

text \<open>The view of a document that shows every field.\<close>

definition full_view :: "tag_doc \<Rightarrow> tag_view" where
  "full_view d =
     \<lparr>v_id = Some (doc_id d), v_dId = Some (dId d), v_lId = Some (lId d),
      v_userId = Some (userId d), v_tag = Some (tag d), v_deleted = Some (deleted d),
      v_encKey = Some (encKey d), v_encConfig = Some (encConfig d),
      v_createTs = Some (createTs d), v_updateTs = Some (updateTs d),
      v_deleteTs = Some (deleteTs d), v_schemaVersion = Some (schemaVersion d)\<rparr>"

text \<open>The owned and the shared collection exchanged.\<close>

definition swap_collections :: "db \<Rightarrow> db" where
  "swap_collections s = \<lparr>tags = tagsShared s, tagsShared = tags s\<rparr>"

text \<open>
  The documents that an import hands to the store, in order: record \<open>k\<close> with the clock
  value of iteration \<open>k\<close>.
\<close>

fun stamped :: "(nat \<Rightarrow> int) \<Rightarrow> tag_doc list \<Rightarrow> tag_doc list" where
  "stamped clock [] = []"
| "stamped clock (t # ts) = import_doc t (clock 0) # stamped (\<lambda>k. clock (Suc k)) ts"

text \<open>
  The store admits each of the documents in turn, starting from the collection \<open>c\<close>.
\<close>

fun admits_all :: "(tag_doc list \<Rightarrow> tag_doc \<Rightarrow> bool) \<Rightarrow> tag_doc list \<Rightarrow> tag_doc list \<Rightarrow> bool" where
  "admits_all admit c [] = True"
| "admits_all admit c (d # ds) = (admit c d \<and> admits_all admit (c @ [d]) ds)"

text \<open>
  What the import is to store, in the words of the claim: record \<open>k\<close> of the batch with
  \<^verbatim>\<open>updateTs\<close> replaced by the clock value of iteration \<open>k\<close> and every other field as
  imported.
\<close>

definition restamped :: "(nat \<Rightarrow> int) \<Rightarrow> tag_doc list \<Rightarrow> tag_doc list" where
  "restamped clock json = map (\<lambda>k. (json ! k)\<lparr>updateTs := Some (clock k)\<rparr>) [0..<length json]"

text \<open>
  How many of the documents the store admits in turn, starting from the collection \<open>c\<close>,
  before it first refuses one.
\<close>

fun admitted_count :: "(tag_doc list \<Rightarrow> tag_doc \<Rightarrow> bool) \<Rightarrow> tag_doc list \<Rightarrow> tag_doc list \<Rightarrow> nat" where
  "admitted_count admit c [] = 0"
| "admitted_count admit c (d # ds) =
     (if admit c d then Suc (admitted_count admit (c @ [d]) ds) else 0)"

subsection \<open>Example data\<close>

definition tag_a :: tag_doc where
  "tag_a = \<lparr>doc_id = ''a'', dId = ''dev1'', lId = ''1'', userId = ''u1'', tag = ''home'',
            deleted = False, encKey = ''k'', encConfig = ''c'', createTs = 100,
            updateTs = Some 100, deleteTs = None, schemaVersion = 1\<rparr>"

definition tag_b :: tag_doc where
  "tag_b = \<lparr>doc_id = ''b'', dId = ''dev2'', lId = ''7'', userId = ''u1'', tag = ''work'',
            deleted = False, encKey = ''k2'', encConfig = ''c2'', createTs = 90,
            updateTs = None, deleteTs = None, schemaVersion = 1\<rparr>"

definition tag_gone :: tag_doc where
  "tag_gone = \<lparr>doc_id = ''g'', dId = ''dev1'', lId = ''3'', userId = ''u1'', tag = [],
               deleted = True, encKey = [], encConfig = [], createTs = 10,
               updateTs = Some 20, deleteTs = Some ''30'', schemaVersion = 1\<rparr>"

definition db0 :: db where
  "db0 = \<lparr>tags = [tag_a, tag_b], tagsShared = []\<rparr>"

definition db1 :: db where
  "db1 = \<lparr>tags = [tag_a, tag_gone], tagsShared = [tag_b]\<rparr>"

text \<open>
  A store that refuses a document whose \<^verbatim>\<open>_id\<close> is already in the collection, a clock
  that advances by one at each reading, and an empty store.
\<close>

definition unique_admit :: "tag_doc list \<Rightarrow> tag_doc \<Rightarrow> bool" where
  "unique_admit c d = (doc_id d \<notin> set (map doc_id c))"

definition tick :: "nat \<Rightarrow> int" where
  "tick k = 1000 + int k"

definition db_empty :: db where
  "db_empty = \<lparr>tags = [], tagsShared = []\<rparr>"

section \<open>Facts about the store\<close>

lemma doc_id_apply_updates [simp]: "doc_id (apply_updates u d) = doc_id d"
  by (simp add: apply_updates_def)

lemma updateOne_miss:
  "\<forall>x \<in> set c. \<not> flt x \<Longrightarrow>
   updateOne flt u c = (\<lparr>acknowledged = True, matchedCount = 0, modifiedCount = 0\<rparr>, c)"
  by (induction c) auto

lemma updateOne_hit:
  assumes "unique_ids c" and "d \<in> set c" and "flt d"
    and only: "\<And>x. flt x \<Longrightarrow> doc_id x = doc_id d"
  shows "updateOne flt u c =
           (\<lparr>acknowledged = True, matchedCount = 1,
             modifiedCount = (if apply_updates u d = d then 0 else 1)\<rparr>,
            modify_doc (doc_id d) (apply_updates u) c)"
  using assms(1-3) unfolding unique_ids_def modify_doc_def
proof (induction c)
  case Nil
  then show ?case by simp
next
  case (Cons x xs)
  show ?case
  proof (cases "x = d")
    case True
    have "doc_id d \<notin> doc_id ` set xs"
      using Cons.prems(1) True by simp
    then have "\<forall>y \<in> set xs. doc_id y \<noteq> doc_id d"
      by (metis imageI)
    then have "map (\<lambda>y. if doc_id y = doc_id d then apply_updates u y else y) xs = xs"
      by (simp add: map_idI)
    with True Cons.prems(3) show ?thesis by simp
  next
    case False
    then have mem: "d \<in> set xs" using Cons.prems(2) by simp
    then have "doc_id x \<noteq> doc_id d" using Cons.prems(1) by (metis distinct.simps(2) imageI list.simps(9) set_map)
    then have "\<not> flt x" using only by blast
    moreover have "distinct (map doc_id xs)" using Cons.prems(1) by simp
    ultimately show ?thesis
      using Cons.IH mem Cons.prems(3) \<open>doc_id x \<noteq> doc_id d\<close> by simp
  qed
qed

lemma update_filter_only: "update_filter uid tid ts x \<Longrightarrow> doc_id x = tid"
  by (simp add: update_filter_def)

lemma delete_filter_only: "delete_filter uid tid x \<Longrightarrow> doc_id x = tid"
  by (simp add: delete_filter_def)

lemma unique_ids_same:
  "unique_ids c \<Longrightarrow> x \<in> set c \<Longrightarrow> y \<in> set c \<Longrightarrow> doc_id x = doc_id y \<Longrightarrow> x = y"
  unfolding unique_ids_def distinct_map by (meson inj_onD)

lemma updateOne_by_id:
  assumes "unique_ids c" and "d \<in> set c" and only: "\<And>x. flt x \<Longrightarrow> doc_id x = doc_id d"
  shows "updateOne flt u c =
           (if flt d
            then (\<lparr>acknowledged = True, matchedCount = 1,
                   modifiedCount = (if apply_updates u d = d then 0 else 1)\<rparr>,
                  modify_doc (doc_id d) (apply_updates u) c)
            else (\<lparr>acknowledged = True, matchedCount = 0, modifiedCount = 0\<rparr>, c))"
proof (cases "flt d")
  case True
  then show ?thesis
    using updateOne_hit [where flt = flt and d = d, OF assms(1,2) True only] by simp
next
  case False
  have "\<forall>x \<in> set c. \<not> flt x"
  proof
    fix x assume x: "x \<in> set c"
    show "\<not> flt x"
    proof
      assume f: "flt x"
      then have "doc_id x = doc_id d" by (rule only)
      then have "x = d" using assms(1,2) x by (rule_tac unique_ids_same)
      with f False show False by simp
    qed
  qed
  with False show ?thesis by (simp add: updateOne_miss)
qed

lemma updateTs_stamped [simp]:
  "updateTs (apply_updates (ups\<lparr>u_updateTs := Some ts\<rparr>) d) = Some ts"
  by (simp add: apply_updates_def)

lemma gate_changes:
  assumes "lt_ts (updateTs d) ts \<or> updateTs d = None"
  shows "apply_updates (ups\<lparr>u_updateTs := Some ts\<rparr>) d \<noteq> d"
proof
  assume "apply_updates (ups\<lparr>u_updateTs := Some ts\<rparr>) d = d"
  then have "updateTs (apply_updates (ups\<lparr>u_updateTs := Some ts\<rparr>) d) = updateTs d" by simp
  then have "updateTs d = Some ts" by simp
  with assms show False by (simp add: lt_ts_def)
qed

lemma updateTag_owned_active:
  assumes "unique_ids (tags s)" and "d \<in> set (tags s)"
    and "userId d = uid" and "deleted d = False"
  shows "updateTag uid (doc_id d) ups ts s =
           (if lt_ts (updateTs d) ts \<or> updateTs d = None
            then (True, s\<lparr>tags := modify_doc (doc_id d)
                                    (apply_updates (ups\<lparr>u_updateTs := Some ts\<rparr>)) (tags s)\<rparr>)
            else (False, s))"
proof -
  have flt: "update_filter uid (doc_id d) ts d = (lt_ts (updateTs d) ts \<or> updateTs d = None)"
    using assms(3,4) by (simp add: update_filter_def)
  have "updateOne (update_filter uid (doc_id d) ts) (ups\<lparr>u_updateTs := Some ts\<rparr>) (tags s) =
          (if update_filter uid (doc_id d) ts d
           then (\<lparr>acknowledged = True, matchedCount = 1,
                  modifiedCount =
                    (if apply_updates (ups\<lparr>u_updateTs := Some ts\<rparr>) d = d then 0 else 1)\<rparr>,
                 modify_doc (doc_id d) (apply_updates (ups\<lparr>u_updateTs := Some ts\<rparr>)) (tags s))
           else (\<lparr>acknowledged = True, matchedCount = 0, modifiedCount = 0\<rparr>, tags s))"
    by (rule updateOne_by_id [where flt = "update_filter uid (doc_id d) ts", OF assms(1,2)])
      (rule update_filter_only)
  then show ?thesis
    using gate_changes [of d ts ups] by (simp add: updateTag_def flt)
qed

text \<open>
  No update changes an \<^verbatim>\<open>_id\<close>, so the operations keep the identifiers of a collection,
  and with them their uniqueness.
\<close>

lemma updateOne_ids: "map doc_id (snd (updateOne flt u c)) = map doc_id c"
  by (induction c) (auto simp: case_prod_unfold)

lemma updateTag_unique_ids:
  "unique_ids (tags s) \<Longrightarrow> unique_ids (tags (snd (updateTag uid tid ups ts s)))"
  by (simp add: unique_ids_def updateTag_def case_prod_unfold updateOne_ids)

lemma deleteSoftTag_unique_ids:
  "unique_ids (tags s) \<Longrightarrow> unique_ids (tags (snd (deleteSoftTag uid tid dts s)))"
  by (simp add: unique_ids_def deleteSoftTag_def case_prod_unfold updateOne_ids)

section \<open>The timestamp gate\<close>

text \<open>
  Claim C1. Take a stored owned tag that is active (\<^verbatim>\<open>deleted = false\<close>) and belongs to the
  caller. \<^verbatim>\<open>updateTag\<close> with a timestamp less than or equal to the stored \<^verbatim>\<open>updateTs\<close>
  writes nothing and returns false. With a timestamp strictly greater than the stored one,
  or with the stored \<^verbatim>\<open>updateTs\<close> null, it changes the record (the stored document differs
  afterwards and carries the new \<^verbatim>\<open>updateTs\<close>) and returns true.
\<close>

theorem updateTag_timestamp_gate:
  assumes "unique_ids (tags s)" and "d \<in> set (tags s)"
    and "userId d = uid" and "deleted d = False"
  shows "(\<forall>stored. updateTs d = Some stored \<and> ts \<le> stored \<longrightarrow>
            updateTag uid (doc_id d) ups ts s = (False, s)) \<and>
         (updateTs d = None \<or> (\<exists>stored. updateTs d = Some stored \<and> stored < ts) \<longrightarrow>
            updateTag uid (doc_id d) ups ts s =
              (True, s\<lparr>tags := modify_doc (doc_id d)
                                 (apply_updates (ups\<lparr>u_updateTs := Some ts\<rparr>)) (tags s)\<rparr>) \<and>
            apply_updates (ups\<lparr>u_updateTs := Some ts\<rparr>) d \<noteq> d \<and>
            updateTs (apply_updates (ups\<lparr>u_updateTs := Some ts\<rparr>) d) = Some ts)"
proof (rule conjI)
  show "\<forall>stored. updateTs d = Some stored \<and> ts \<le> stored \<longrightarrow>
          updateTag uid (doc_id d) ups ts s = (False, s)"
    using updateTag_owned_active [OF assms, of ups ts] by (auto simp: lt_ts_def)
next
  show "updateTs d = None \<or> (\<exists>stored. updateTs d = Some stored \<and> stored < ts) \<longrightarrow>
          updateTag uid (doc_id d) ups ts s =
            (True, s\<lparr>tags := modify_doc (doc_id d)
                               (apply_updates (ups\<lparr>u_updateTs := Some ts\<rparr>)) (tags s)\<rparr>) \<and>
          apply_updates (ups\<lparr>u_updateTs := Some ts\<rparr>) d \<noteq> d \<and>
          updateTs (apply_updates (ups\<lparr>u_updateTs := Some ts\<rparr>) d) = Some ts"
  proof
    assume "updateTs d = None \<or> (\<exists>stored. updateTs d = Some stored \<and> stored < ts)"
    then have g: "lt_ts (updateTs d) ts \<or> updateTs d = None"
      by (auto simp: lt_ts_def)
    with updateTag_owned_active [OF assms, of ups ts] gate_changes [OF g, of ups]
    show "updateTag uid (doc_id d) ups ts s =
            (True, s\<lparr>tags := modify_doc (doc_id d)
                               (apply_updates (ups\<lparr>u_updateTs := Some ts\<rparr>)) (tags s)\<rparr>) \<and>
          apply_updates (ups\<lparr>u_updateTs := Some ts\<rparr>) d \<noteq> d \<and>
          updateTs (apply_updates (ups\<lparr>u_updateTs := Some ts\<rparr>) d) = Some ts"
      by simp
  qed
qed

theorem updateTag_timestamp_gate_witness:
  "updateTag ''u1'' ''a'' (no_updates\<lparr>u_tag := Some ''x''\<rparr>) 100 db0 = (False, db0) \<and>
   updateTag ''u1'' ''a'' (no_updates\<lparr>u_tag := Some ''x''\<rparr>) 101 db0 =
     (True, db0\<lparr>tags := [tag_a\<lparr>tag := ''x'', updateTs := Some 101\<rparr>, tag_b]\<rparr>) \<and>
   updateTag ''u1'' ''b'' (no_updates\<lparr>u_tag := Some ''x''\<rparr>) 5 db0 =
     (True, db0\<lparr>tags := [tag_a, tag_b\<lparr>tag := ''x'', updateTs := Some 5\<rparr>]\<rparr>)"
proof -
  have u: "unique_ids (tags db0)" by (simp add: unique_ids_def db0_def tag_a_def tag_b_def)
  have ma: "tag_a \<in> set (tags db0)" and mb: "tag_b \<in> set (tags db0)" by (simp_all add: db0_def)
  have oa: "userId tag_a = ''u1''" and ob: "userId tag_b = ''u1''"
    by (simp_all add: tag_a_def tag_b_def)
  have aa: "deleted tag_a = False" and ab: "deleted tag_b = False"
    by (simp_all add: tag_a_def tag_b_def)
  show ?thesis
    using updateTag_timestamp_gate [OF u ma oa aa, of 100 "no_updates\<lparr>u_tag := Some ''x''\<rparr>"]
      updateTag_timestamp_gate [OF u ma oa aa, of 101 "no_updates\<lparr>u_tag := Some ''x''\<rparr>"]
      updateTag_timestamp_gate [OF u mb ob ab, of 5 "no_updates\<lparr>u_tag := Some ''x''\<rparr>"]
    by (simp add: db0_def tag_a_def tag_b_def apply_updates_def no_updates_def set_field_def
        modify_doc_def)
qed

lemma updateOne_first:
  assumes "\<exists>x \<in> set c. flt x"
  shows "\<exists>i < length c. flt (c ! i) \<and> (\<forall>j < i. \<not> flt (c ! j)) \<and>
           updateOne flt u c =
             (\<lparr>acknowledged = True, matchedCount = 1,
               modifiedCount = (if apply_updates u (c ! i) = c ! i then 0 else 1)\<rparr>,
              c[i := apply_updates u (c ! i)])"
  using assms
proof (induction c)
  case Nil
  then show ?case by simp
next
  case (Cons x xs)
  show ?case
  proof (cases "flt x")
    case True
    then have "flt ((x # xs) ! 0) \<and> (\<forall>j < 0. \<not> flt ((x # xs) ! j)) \<and>
           updateOne flt u (x # xs) =
             (\<lparr>acknowledged = True, matchedCount = 1,
               modifiedCount = (if apply_updates u ((x # xs) ! 0) = (x # xs) ! 0 then 0 else 1)\<rparr>,
              (x # xs)[0 := apply_updates u ((x # xs) ! 0)])"
      by simp
    then show ?thesis by blast
  next
    case False
    with Cons.prems have "\<exists>y \<in> set xs. flt y" by simp
    from Cons.IH [OF this] obtain i where i: "i < length xs" "flt (xs ! i)"
      "\<forall>j < i. \<not> flt (xs ! j)"
      "updateOne flt u xs =
             (\<lparr>acknowledged = True, matchedCount = 1,
               modifiedCount = (if apply_updates u (xs ! i) = xs ! i then 0 else 1)\<rparr>,
              xs[i := apply_updates u (xs ! i)])"
      by blast
    have "\<forall>j < Suc i. \<not> flt ((x # xs) ! j)"
      using False i(3) by (simp add: nth_Cons split: nat.split)
    with i False have "Suc i < length (x # xs) \<and> flt ((x # xs) ! Suc i) \<and>
           (\<forall>j < Suc i. \<not> flt ((x # xs) ! j)) \<and>
           updateOne flt u (x # xs) =
             (\<lparr>acknowledged = True, matchedCount = 1,
               modifiedCount =
                 (if apply_updates u ((x # xs) ! Suc i) = (x # xs) ! Suc i then 0 else 1)\<rparr>,
              (x # xs)[Suc i := apply_updates u ((x # xs) ! Suc i)])"
      by simp
    then show ?thesis by blast
  qed
qed

lemma updateOne_keeps:
  "x \<in> set c \<Longrightarrow> \<not> flt x \<Longrightarrow> x \<in> set (snd (updateOne flt u c))"
  by (induction c) (auto split: prod.splits)

lemma update_filter_changes:
  "update_filter uid tid ts d \<Longrightarrow> apply_updates (ups\<lparr>u_updateTs := Some ts\<rparr>) d \<noteq> d"
  by (rule gate_changes) (simp add: update_filter_def)

text \<open>
  Claim C2, corrected. \<^verbatim>\<open>updateTag\<close> returns true exactly when a stored record satisfies
  its filter (\<^verbatim>\<open>_id\<close>, \<^verbatim>\<open>userId\<close>, \<^verbatim>\<open>deleted = false\<close>, stored \<^verbatim>\<open>updateTs\<close> null or below
  the candidate). One record, the first match, is then written, and the write always
  modifies it, because its \<^verbatim>\<open>updateTs\<close> changes: also when the field changes equal the
  values already stored. A call that matches no record returns the boolean false and
  leaves the collection as it was.
\<close>

theorem updateTag_accepts_iff_matched:
  "fst (updateTag uid tid ups ts s) = (\<exists>d \<in> set (tags s). update_filter uid tid ts d) \<and>
   (\<not> fst (updateTag uid tid ups ts s) \<longrightarrow> snd (updateTag uid tid ups ts s) = s) \<and>
   (fst (updateTag uid tid ups ts s) \<longrightarrow>
      (\<exists>i < length (tags s).
         update_filter uid tid ts (tags s ! i) \<and>
         (\<forall>j < i. \<not> update_filter uid tid ts (tags s ! j)) \<and>
         apply_updates (ups\<lparr>u_updateTs := Some ts\<rparr>) (tags s ! i) \<noteq> tags s ! i \<and>
         snd (updateTag uid tid ups ts s) =
           s\<lparr>tags := (tags s)[i := apply_updates (ups\<lparr>u_updateTs := Some ts\<rparr>) (tags s ! i)]\<rparr>))"
proof (cases "\<exists>d \<in> set (tags s). update_filter uid tid ts d")
  case True
  from updateOne_first [OF True, of "ups\<lparr>u_updateTs := Some ts\<rparr>"]
  obtain i where i: "i < length (tags s)" "update_filter uid tid ts (tags s ! i)"
    "\<forall>j < i. \<not> update_filter uid tid ts (tags s ! j)"
    "updateOne (update_filter uid tid ts) (ups\<lparr>u_updateTs := Some ts\<rparr>) (tags s) =
       (\<lparr>acknowledged = True, matchedCount = 1,
         modifiedCount = (if apply_updates (ups\<lparr>u_updateTs := Some ts\<rparr>) (tags s ! i) = tags s ! i
                          then 0 else 1)\<rparr>,
        (tags s)[i := apply_updates (ups\<lparr>u_updateTs := Some ts\<rparr>) (tags s ! i)])"
    by blast
  note ch = update_filter_changes [OF i(2), of ups]
  have r: "updateTag uid tid ups ts s =
          (True, s\<lparr>tags := (tags s)[i := apply_updates (ups\<lparr>u_updateTs := Some ts\<rparr>) (tags s ! i)]\<rparr>)"
    using i(4) ch by (simp add: updateTag_def)
  have "\<exists>i < length (tags s).
         update_filter uid tid ts (tags s ! i) \<and>
         (\<forall>j < i. \<not> update_filter uid tid ts (tags s ! j)) \<and>
         apply_updates (ups\<lparr>u_updateTs := Some ts\<rparr>) (tags s ! i) \<noteq> tags s ! i \<and>
         snd (updateTag uid tid ups ts s) =
           s\<lparr>tags := (tags s)[i := apply_updates (ups\<lparr>u_updateTs := Some ts\<rparr>) (tags s ! i)]\<rparr>"
    using i(1,2,3) ch r by (intro exI [of _ i]) simp
  with True r show ?thesis by simp
next
  case False
  then have "updateTag uid tid ups ts s = (False, s)"
    by (simp add: updateTag_def updateOne_miss)
  with False show ?thesis by simp
qed

theorem updateTag_accepts_iff_matched_witness:
  "fst (updateTag ''u1'' ''a'' (no_updates\<lparr>u_tag := Some ''home''\<rparr>) 101 db0) \<and>
   update_filter ''u1'' ''a'' 101 tag_a \<and>
   \<not> fst (updateTag ''u1'' ''a'' (no_updates\<lparr>u_tag := Some ''home''\<rparr>) 100 db0) \<and>
   snd (updateTag ''u1'' ''a'' (no_updates\<lparr>u_tag := Some ''home''\<rparr>) 100 db0) = db0 \<and>
   snd (updateTag ''u1'' ''a'' (no_updates\<lparr>u_tag := Some ''x''\<rparr>) 101
          \<lparr>tags = [tag_b, tag_a, tag_a], tagsShared = []\<rparr>) =
     \<lparr>tags = [tag_b, tag_a\<lparr>tag := ''x'', updateTs := Some 101\<rparr>, tag_a], tagsShared = []\<rparr>"
  using updateTag_accepts_iff_matched [of "''u1''" "''a''" "no_updates\<lparr>u_tag := Some ''home''\<rparr>" 101 db0]
    updateTag_accepts_iff_matched [of "''u1''" "''a''" "no_updates\<lparr>u_tag := Some ''home''\<rparr>" 100 db0]
    updateTag_accepts_iff_matched [of "''u1''" "''a''" "no_updates\<lparr>u_tag := Some ''x''\<rparr>" 101
      "\<lparr>tags = [tag_b, tag_a, tag_a], tagsShared = []\<rparr>"]
  by (simp add: db0_def tag_a_def tag_b_def update_filter_def lt_ts_def updateTag_def
      apply_updates_def no_updates_def set_field_def)

text \<open>
  Claim C2 as stated fails: a call whose field change equals the stored value and whose
  timestamp is newer matches, advances \<^verbatim>\<open>updateTs\<close> and returns true.
\<close>

theorem value_equal_update_counterexample:
  "u_tag (no_updates\<lparr>u_tag := Some ''home''\<rparr>) = Some (tag tag_a) \<and>
   apply_updates (no_updates\<lparr>u_tag := Some ''home''\<rparr>) tag_a = tag_a \<and>
   updateTag ''u1'' ''a'' (no_updates\<lparr>u_tag := Some ''home''\<rparr>) 101 db0 =
     (True, db0\<lparr>tags := [tag_a\<lparr>updateTs := Some 101\<rparr>, tag_b]\<rparr>)"
  by (simp add: updateTag_def db0_def tag_a_def tag_b_def update_filter_def lt_ts_def
      apply_updates_def no_updates_def set_field_def)

section \<open>Soft delete\<close>

lemma apply_tombstone:
  "apply_updates (tombstone_updates dts) x =
     x\<lparr>tag := [], deleted := True, encKey := [], encConfig := [], deleteTs := Some dts\<rparr>"
  by (simp add: apply_updates_def tombstone_updates_def no_updates_def set_field_def)

lemma delete_filter_changes:
  "delete_filter uid tid d \<Longrightarrow> apply_updates (tombstone_updates dts) d \<noteq> d"
proof
  assume f: "delete_filter uid tid d" and "apply_updates (tombstone_updates dts) d = d"
  then have "deleted (apply_updates (tombstone_updates dts) d) = deleted d" by simp
  with f show False by (simp add: apply_tombstone delete_filter_def)
qed

text \<open>
  Claim C4. \<^verbatim>\<open>deleteSoftTag\<close> matches on \<^verbatim>\<open>_id\<close>, \<^verbatim>\<open>userId\<close> and \<^verbatim>\<open>deleted = false\<close> alone:
  it returns true exactly when such a record is stored, whatever the stored \<^verbatim>\<open>updateTs\<close>
  and the supplied \<^verbatim>\<open>deleteTs\<close> are. On an active record of the caller it sets
  \<^verbatim>\<open>deleted = true\<close>, empties \<^verbatim>\<open>tag\<close>, \<^verbatim>\<open>encKey\<close> and \<^verbatim>\<open>encConfig\<close>, and records \<^verbatim>\<open>deleteTs\<close>.
\<close>

theorem deleteSoftTag_ungated:
  assumes "unique_ids (tags s)" and "d \<in> set (tags s)"
    and "userId d = uid" and "deleted d = False"
  shows "deleteSoftTag uid (doc_id d) dts s =
           (True, s\<lparr>tags := modify_doc (doc_id d)
                     (\<lambda>x. x\<lparr>tag := [], deleted := True, encKey := [], encConfig := [],
                             deleteTs := Some dts\<rparr>) (tags s)\<rparr>) \<and>
         (\<forall>uid' tid'. fst (deleteSoftTag uid' tid' dts s) =
            (\<exists>x \<in> set (tags s). doc_id x = tid' \<and> userId x = uid' \<and> deleted x = False))"
proof (rule conjI)
  have flt: "delete_filter uid (doc_id d) d"
    using assms(3,4) by (simp add: delete_filter_def)
  have "updateOne (delete_filter uid (doc_id d)) (tombstone_updates dts) (tags s) =
          (\<lparr>acknowledged = True, matchedCount = 1,
            modifiedCount = (if apply_updates (tombstone_updates dts) d = d then 0 else 1)\<rparr>,
           modify_doc (doc_id d) (apply_updates (tombstone_updates dts)) (tags s))"
    by (rule updateOne_hit [where flt = "delete_filter uid (doc_id d)", OF assms(1,2) flt])
      (rule delete_filter_only)
  moreover have "apply_updates (tombstone_updates dts) =
      (\<lambda>x. x\<lparr>tag := [], deleted := True, encKey := [], encConfig := [], deleteTs := Some dts\<rparr>)"
    by (rule ext) (rule apply_tombstone)
  ultimately show "deleteSoftTag uid (doc_id d) dts s =
           (True, s\<lparr>tags := modify_doc (doc_id d)
                     (\<lambda>x. x\<lparr>tag := [], deleted := True, encKey := [], encConfig := [],
                             deleteTs := Some dts\<rparr>) (tags s)\<rparr>)"
    using delete_filter_changes [OF flt, of dts] by (simp add: deleteSoftTag_def)
next
  show "\<forall>uid' tid'. fst (deleteSoftTag uid' tid' dts s) =
            (\<exists>x \<in> set (tags s). doc_id x = tid' \<and> userId x = uid' \<and> deleted x = False)"
  proof (intro allI)
    fix uid' tid'
    show "fst (deleteSoftTag uid' tid' dts s) =
            (\<exists>x \<in> set (tags s). doc_id x = tid' \<and> userId x = uid' \<and> deleted x = False)"
    proof (cases "\<exists>x \<in> set (tags s). delete_filter uid' tid' x")
      case True
      from updateOne_first [OF True, of "tombstone_updates dts"]
      obtain i where i: "delete_filter uid' tid' (tags s ! i)"
        "updateOne (delete_filter uid' tid') (tombstone_updates dts) (tags s) =
           (\<lparr>acknowledged = True, matchedCount = 1,
             modifiedCount = (if apply_updates (tombstone_updates dts) (tags s ! i) = tags s ! i
                              then 0 else 1)\<rparr>,
            (tags s)[i := apply_updates (tombstone_updates dts) (tags s ! i)])"
        by blast
      have "fst (deleteSoftTag uid' tid' dts s)"
        using i(2) delete_filter_changes [OF i(1), of dts] by (simp add: deleteSoftTag_def)
      with True show ?thesis by (simp add: delete_filter_def)
    next
      case False
      then have "deleteSoftTag uid' tid' dts s = (False, s)"
        by (simp add: deleteSoftTag_def updateOne_miss)
      with False show ?thesis by (simp add: delete_filter_def)
    qed
  qed
qed

theorem deleteSoftTag_ungated_witness:
  "deleteSoftTag ''u1'' ''a'' ''7'' db0 =
     (True, db0\<lparr>tags := [tag_a\<lparr>tag := [], deleted := True, encKey := [], encConfig := [],
                              deleteTs := Some ''7''\<rparr>, tag_b]\<rparr>) \<and>
   updateTs tag_a = Some 100"
proof -
  have u: "unique_ids (tags db0)" by (simp add: unique_ids_def db0_def tag_a_def tag_b_def)
  have ma: "tag_a \<in> set (tags db0)" by (simp add: db0_def)
  have oa: "userId tag_a = ''u1''" by (simp add: tag_a_def)
  have aa: "deleted tag_a = False" by (simp add: tag_a_def)
  show ?thesis
    using deleteSoftTag_ungated [OF u ma oa aa, of "''7''"]
    by (simp add: db0_def tag_a_def tag_b_def modify_doc_def)
qed

section \<open>Tombstones\<close>

lemma unique_ids_modify_doc:
  "unique_ids c \<Longrightarrow> (\<And>x. doc_id (f x) = doc_id x) \<Longrightarrow> unique_ids (modify_doc i f c)"
proof -
  assume u: "unique_ids c" and f: "\<And>x. doc_id (f x) = doc_id x"
  have "map doc_id (modify_doc i f c) = map doc_id c"
    by (simp add: modify_doc_def f)
  with u show ?thesis by (simp add: unique_ids_def)
qed

lemma modify_doc_mem: "d \<in> set c \<Longrightarrow> f d \<in> set (modify_doc (doc_id d) f c)"
  by (force simp: modify_doc_def)

lemma modify_doc_twice:
  "(\<And>x. doc_id (f x) = doc_id x) \<Longrightarrow>
   modify_doc i g (modify_doc i f c) = modify_doc i (\<lambda>x. g (f x)) c"
  by (simp add: modify_doc_def)

lemma modify_doc_const:
  assumes "unique_ids c" and "d \<in> set c"
  shows "modify_doc (doc_id d) f c = modify_doc (doc_id d) (\<lambda>_. f d) c"
  unfolding modify_doc_def
proof (rule map_cong [OF refl])
  fix x assume "x \<in> set c"
  then show "(if doc_id x = doc_id d then f x else x) = (if doc_id x = doc_id d then f d else x)"
    using unique_ids_same [OF assms(1) _ assms(2)] by auto
qed

lemma carries_apply_updates: "carries ups ts (apply_updates (ups\<lparr>u_updateTs := Some ts\<rparr>) x)"
  by (simp add: carries_def apply_updates_def set_field_def split: option.split)

lemma updateTag_tombstone:
  assumes "unique_ids (tags s)" and "d \<in> set (tags s)" and "deleted d = True"
  shows "updateTag uid (doc_id d) ups ts s = (False, s)"
proof -
  have "\<not> update_filter uid (doc_id d) ts d"
    using assms(3) by (simp add: update_filter_def)
  moreover have "updateOne (update_filter uid (doc_id d) ts) (ups\<lparr>u_updateTs := Some ts\<rparr>) (tags s) =
          (if update_filter uid (doc_id d) ts d
           then (\<lparr>acknowledged = True, matchedCount = 1,
                  modifiedCount =
                    (if apply_updates (ups\<lparr>u_updateTs := Some ts\<rparr>) d = d then 0 else 1)\<rparr>,
                 modify_doc (doc_id d) (apply_updates (ups\<lparr>u_updateTs := Some ts\<rparr>)) (tags s))
           else (\<lparr>acknowledged = True, matchedCount = 0, modifiedCount = 0\<rparr>, tags s))"
    by (rule updateOne_by_id [where flt = "update_filter uid (doc_id d) ts", OF assms(1,2)])
      (rule update_filter_only)
  ultimately show ?thesis by (simp add: updateTag_def)
qed

lemma deleteSoftTag_tombstone:
  assumes "unique_ids (tags s)" and "d \<in> set (tags s)" and "deleted d = True"
  shows "deleteSoftTag uid (doc_id d) dts s = (False, s)"
proof -
  have "\<not> delete_filter uid (doc_id d) d"
    using assms(3) by (simp add: delete_filter_def)
  moreover have "updateOne (delete_filter uid (doc_id d)) (tombstone_updates dts) (tags s) =
          (if delete_filter uid (doc_id d) d
           then (\<lparr>acknowledged = True, matchedCount = 1,
                  modifiedCount = (if apply_updates (tombstone_updates dts) d = d then 0 else 1)\<rparr>,
                 modify_doc (doc_id d) (apply_updates (tombstone_updates dts)) (tags s))
           else (\<lparr>acknowledged = True, matchedCount = 0, modifiedCount = 0\<rparr>, tags s))"
    by (rule updateOne_by_id [where flt = "delete_filter uid (doc_id d)", OF assms(1,2)])
      (rule delete_filter_only)
  ultimately show ?thesis by (simp add: deleteSoftTag_def)
qed

lemma updateTag_keeps_tombstone:
  "d \<in> set (tags s) \<Longrightarrow> deleted d = True \<Longrightarrow> d \<in> set (tags (snd (updateTag uid tid ups ts s)))"
  using updateOne_keeps [of d "tags s" "update_filter uid tid ts" "ups\<lparr>u_updateTs := Some ts\<rparr>"]
  by (simp add: updateTag_def update_filter_def case_prod_unfold)

lemma deleteSoftTag_keeps_tombstone:
  "d \<in> set (tags s) \<Longrightarrow> deleted d = True \<Longrightarrow> d \<in> set (tags (snd (deleteSoftTag uid tid dts s)))"
  using updateOne_keeps [of d "tags s" "delete_filter uid tid" "tombstone_updates dts"]
  by (simp add: deleteSoftTag_def delete_filter_def case_prod_unfold)

text \<open>
  Claim C5. Once a record has \<^verbatim>\<open>deleted = true\<close>, no \<^verbatim>\<open>updateTag\<close>, \<^verbatim>\<open>updateTagDetails\<close> or
  \<^verbatim>\<open>deleteSoftTag\<close> call modifies it again: a call on its \<^verbatim>\<open>_id\<close> returns false and
  leaves the store unchanged, whatever timestamp it carries, and a call on any \<^verbatim>\<open>_id\<close>
  leaves the tombstone in the collection as it is. So a record is soft-deleted at most
  once and a tombstone is never resurrected or given payload.
\<close>

theorem tombstone_is_final:
  assumes "unique_ids (tags s)" and "d \<in> set (tags s)" and "deleted d = True"
  shows "updateTag uid (doc_id d) ups ts s = (False, s) \<and>
         updateTagDetails uid (doc_id d) tg ek ec ts sv s = (False, s) \<and>
         deleteSoftTag uid (doc_id d) dts s = (False, s) \<and>
         (\<forall>tid. d \<in> set (tags (snd (updateTag uid tid ups ts s))) \<and>
                d \<in> set (tags (snd (updateTagDetails uid tid tg ek ec ts sv s))) \<and>
                d \<in> set (tags (snd (deleteSoftTag uid tid dts s))))"
proof (intro conjI allI)
  show "updateTag uid (doc_id d) ups ts s = (False, s)"
    by (rule updateTag_tombstone [OF assms])
  show "updateTagDetails uid (doc_id d) tg ek ec ts sv s = (False, s)"
    by (simp add: updateTagDetails_def updateTag_tombstone [OF assms])
  show "deleteSoftTag uid (doc_id d) dts s = (False, s)"
    by (rule deleteSoftTag_tombstone [OF assms])
next
  fix tid
  show "d \<in> set (tags (snd (updateTag uid tid ups ts s)))"
    by (rule updateTag_keeps_tombstone [OF assms(2,3)])
  have "snd (updateTagDetails uid tid tg ek ec ts sv s) =
        snd (updateTag uid tid (no_updates\<lparr>u_tag := Some tg, u_encKey := Some ek,
               u_encConfig := Some ec, u_schemaVersion := Some sv\<rparr>) ts s)"
    by (simp add: updateTagDetails_def split: prod.splits)
  then show "d \<in> set (tags (snd (updateTagDetails uid tid tg ek ec ts sv s)))"
    using updateTag_keeps_tombstone [OF assms(2,3)] by simp
  show "d \<in> set (tags (snd (deleteSoftTag uid tid dts s)))"
    by (rule deleteSoftTag_keeps_tombstone [OF assms(2,3)])
qed

theorem tombstone_is_final_witness:
  "updateTag ''u1'' ''g'' (no_updates\<lparr>u_tag := Some ''back''\<rparr>) 999 db1 = (False, db1) \<and>
   updateTagDetails ''u1'' ''g'' ''back'' ''k'' ''c'' 999 2 db1 = (False, db1) \<and>
   deleteSoftTag ''u1'' ''g'' ''999'' db1 = (False, db1) \<and>
   tag_gone \<in> set (tags (snd (updateTag ''u1'' ''a'' (no_updates\<lparr>u_tag := Some ''back''\<rparr>) 999 db1)))"
proof -
  have u: "unique_ids (tags db1)" by (simp add: unique_ids_def db1_def tag_a_def tag_gone_def)
  have m: "tag_gone \<in> set (tags db1)" by (simp add: db1_def)
  have g: "deleted tag_gone = True" by (simp add: tag_gone_def)
  have i: "doc_id tag_gone = ''g''" by (simp add: tag_gone_def)
  show ?thesis
    using tombstone_is_final [OF u m g, of "''u1''" "no_updates\<lparr>u_tag := Some ''back''\<rparr>" 999
        "''back''" "''k''" "''c''" 2 "''999''"]
    by (simp add: i)
qed

section \<open>The shared collection\<close>

text \<open>
  Claim C8. The shared-collection operations are their owned-collection counterparts on
  the other collection: \<^verbatim>\<open>updateTagShared\<close> does to \<^verbatim>\<open>tagsShared\<close> what \<^verbatim>\<open>updateTag\<close> does to
  \<^verbatim>\<open>tags\<close> (same filter, same write, same result), and \<^verbatim>\<open>updateTagDetailsShared\<close> passes the
  same field changes as \<^verbatim>\<open>updateTagDetails\<close>.
\<close>

theorem shared_mirrors_owned:
  "updateTagShared uid tid ups ts s =
     (case updateTag uid tid ups ts (swap_collections s) of
        (r, s') \<Rightarrow> (r, swap_collections s')) \<and>
   updateTagDetailsShared uid tid tg ek ec ts sv s =
     (case updateTagDetails uid tid tg ek ec ts sv (swap_collections s) of
        (r, s') \<Rightarrow> (r, swap_collections s'))"
proof -
  have a: "updateTagShared uid tid ups ts s =
     (case updateTag uid tid ups ts (swap_collections s) of
        (r, s') \<Rightarrow> (r, swap_collections s'))" for ups
    by (simp add: updateTagShared_def updateTag_def swap_collections_def split: prod.splits)
  show ?thesis
    by (simp add: a updateTagDetailsShared_def updateTagDetails_def split: prod.splits)
qed

theorem shared_mirrors_owned_witness:
  "updateTagShared ''u1'' ''b'' (no_updates\<lparr>u_tag := Some ''x''\<rparr>) 5 db1 =
     (True, db1\<lparr>tagsShared := [tag_b\<lparr>tag := ''x'', updateTs := Some 5\<rparr>]\<rparr>) \<and>
   updateTagDetailsShared ''u1'' ''b'' ''x'' ''y'' ''z'' 5 2 db1 =
     (True, db1\<lparr>tagsShared := [tag_b\<lparr>tag := ''x'', encKey := ''y'', encConfig := ''z'',
                                     updateTs := Some 5, schemaVersion := 2\<rparr>]\<rparr>)"
  using shared_mirrors_owned [of "''u1''" "''b''" "no_updates\<lparr>u_tag := Some ''x''\<rparr>" 5 db1
      "''x''" "''y''" "''z''" 2]
  by (simp add: swap_collections_def db1_def tag_a_def tag_b_def tag_gone_def updateTag_def
      updateTagDetails_def update_filter_def lt_ts_def apply_updates_def no_updates_def
      set_field_def)

section \<open>Two updates of one record\<close>

lemma updateTag_by_id:
  assumes "unique_ids (tags s)" and "d \<in> set (tags s)"
  shows "updateTag uid (doc_id d) ups ts s =
           (if update_filter uid (doc_id d) ts d
            then (True, s\<lparr>tags := modify_doc (doc_id d)
                                    (apply_updates (ups\<lparr>u_updateTs := Some ts\<rparr>)) (tags s)\<rparr>)
            else (False, s))"
proof -
  have "updateOne (update_filter uid (doc_id d) ts) (ups\<lparr>u_updateTs := Some ts\<rparr>) (tags s) =
          (if update_filter uid (doc_id d) ts d
           then (\<lparr>acknowledged = True, matchedCount = 1,
                  modifiedCount =
                    (if apply_updates (ups\<lparr>u_updateTs := Some ts\<rparr>) d = d then 0 else 1)\<rparr>,
                 modify_doc (doc_id d) (apply_updates (ups\<lparr>u_updateTs := Some ts\<rparr>)) (tags s))
           else (\<lparr>acknowledged = True, matchedCount = 0, modifiedCount = 0\<rparr>, tags s))"
    by (rule updateOne_by_id [where flt = "update_filter uid (doc_id d) ts", OF assms(1,2)])
      (rule update_filter_only)
  then show ?thesis
    using update_filter_changes [of uid "doc_id d" ts d ups] by (simp add: updateTag_def)
qed

text \<open>
  Claim C3, corrected. Take an active record of the caller whose stored \<^verbatim>\<open>updateTs\<close> is null
  or below \<open>t2\<close>, and two \<^verbatim>\<open>updateTag\<close> calls with timestamps \<open>t1 < t2\<close>, where the changes
  of the \<open>t1\<close> call leave the record active and with its owner. In either order the record
  ends with \<^verbatim>\<open>updateTs = t2\<close> and with every payload field that the \<open>t2\<close> call supplies equal
  to the value of that call. When the \<open>t2\<close> call comes first, the \<open>t1\<close> call returns false
  and changes nothing. When the \<open>t1\<close> call comes first, it is accepted exactly when the
  stored \<^verbatim>\<open>updateTs\<close> is null or below \<open>t1\<close>, and the \<open>t2\<close> call then overwrites it.
\<close>

theorem concurrent_updates_converge:
  assumes "unique_ids (tags s)" and "d \<in> set (tags s)"
    and "userId d = uid" and "deleted d = False"
    and "t1 < t2" and "updateTs d = None \<or> lt_ts (updateTs d) t2"
    and "u_deleted ups1 \<noteq> Some True" and "u_userId ups1 = None \<or> u_userId ups1 = Some uid"
  shows "(\<exists>d'. carries ups2 t2 d' \<and>
            updateTag uid (doc_id d) ups2 t2 s =
              (True, s\<lparr>tags := modify_doc (doc_id d) (\<lambda>_. d') (tags s)\<rparr>) \<and>
            updateTag uid (doc_id d) ups1 t1
                (s\<lparr>tags := modify_doc (doc_id d) (\<lambda>_. d') (tags s)\<rparr>) =
              (False, s\<lparr>tags := modify_doc (doc_id d) (\<lambda>_. d') (tags s)\<rparr>)) \<and>
         (\<exists>d'. carries ups2 t2 d' \<and>
            updateTag uid (doc_id d) ups2 t2 (snd (updateTag uid (doc_id d) ups1 t1 s)) =
              (True, s\<lparr>tags := modify_doc (doc_id d) (\<lambda>_. d') (tags s)\<rparr>)) \<and>
         fst (updateTag uid (doc_id d) ups1 t1 s) =
           (updateTs d = None \<or> lt_ts (updateTs d) t1)"
proof (intro conjI)
  let ?f1 = "apply_updates (ups1\<lparr>u_updateTs := Some t1\<rparr>)"
  let ?f2 = "apply_updates (ups2\<lparr>u_updateTs := Some t2\<rparr>)"
  have g2: "update_filter uid (doc_id d) t2 d"
    using assms(3,4,6) by (auto simp: update_filter_def)
  have g1: "update_filter uid (doc_id d) t1 d = (updateTs d = None \<or> lt_ts (updateTs d) t1)"
    using assms(3,4) by (auto simp: update_filter_def)
  have second: "updateTag uid (doc_id d) ups2 t2 s =
      (True, s\<lparr>tags := modify_doc (doc_id d) (\<lambda>_. ?f2 d) (tags s)\<rparr>)"
    using updateTag_by_id [OF assms(1,2), of uid ups2 t2] g2
      modify_doc_const [OF assms(1,2), of ?f2] by simp
  show "fst (updateTag uid (doc_id d) ups1 t1 s) = (updateTs d = None \<or> lt_ts (updateTs d) t1)"
    using updateTag_by_id [OF assms(1,2), of uid ups1 t1] g1 by simp
  show "\<exists>d'. carries ups2 t2 d' \<and>
            updateTag uid (doc_id d) ups2 t2 s =
              (True, s\<lparr>tags := modify_doc (doc_id d) (\<lambda>_. d') (tags s)\<rparr>) \<and>
            updateTag uid (doc_id d) ups1 t1
                (s\<lparr>tags := modify_doc (doc_id d) (\<lambda>_. d') (tags s)\<rparr>) =
              (False, s\<lparr>tags := modify_doc (doc_id d) (\<lambda>_. d') (tags s)\<rparr>)"
  proof (intro exI conjI)
    let ?s2 = "s\<lparr>tags := modify_doc (doc_id d) (\<lambda>_. ?f2 d) (tags s)\<rparr>"
    show "carries ups2 t2 (?f2 d)" by (rule carries_apply_updates)
    show "updateTag uid (doc_id d) ups2 t2 s = (True, ?s2)" by (rule second)
    have u2: "unique_ids (tags ?s2)"
      using unique_ids_modify_doc [OF assms(1), of ?f2 "doc_id d"]
        modify_doc_const [OF assms(1,2), of ?f2] by simp
    have m2: "?f2 d \<in> set (tags ?s2)"
      using modify_doc_mem [OF assms(2), of "\<lambda>_. ?f2 d"] by simp
    have "\<not> update_filter uid (doc_id (?f2 d)) t1 (?f2 d)"
      using assms(5) by (simp add: update_filter_def lt_ts_def)
    with updateTag_by_id [OF u2 m2, of uid ups1 t1]
    show "updateTag uid (doc_id d) ups1 t1 ?s2 = (False, ?s2)" by simp
  qed
  show "\<exists>d'. carries ups2 t2 d' \<and>
            updateTag uid (doc_id d) ups2 t2 (snd (updateTag uid (doc_id d) ups1 t1 s)) =
              (True, s\<lparr>tags := modify_doc (doc_id d) (\<lambda>_. d') (tags s)\<rparr>)"
  proof (cases "update_filter uid (doc_id d) t1 d")
    case False
    then have "updateTag uid (doc_id d) ups1 t1 s = (False, s)"
      using updateTag_by_id [OF assms(1,2), of uid ups1 t1] by simp
    with second carries_apply_updates [of ups2 t2 d] show ?thesis by auto
  next
    case True
    let ?s1 = "s\<lparr>tags := modify_doc (doc_id d) ?f1 (tags s)\<rparr>"
    have first: "updateTag uid (doc_id d) ups1 t1 s = (True, ?s1)"
      using updateTag_by_id [OF assms(1,2), of uid ups1 t1] True by simp
    have u1: "unique_ids (tags ?s1)"
      using unique_ids_modify_doc [OF assms(1), of ?f1 "doc_id d"] by simp
    have m1: "?f1 d \<in> set (tags ?s1)"
      using modify_doc_mem [OF assms(2), of ?f1] by simp
    have "deleted (?f1 d) = False"
      using assms(4,7) by (cases "u_deleted ups1") (auto simp: apply_updates_def set_field_def)
    moreover have "userId (?f1 d) = uid"
      using assms(3,8) by (auto simp: apply_updates_def set_field_def)
    ultimately have "update_filter uid (doc_id (?f1 d)) t2 (?f1 d)"
      using assms(5) by (simp add: update_filter_def lt_ts_def)
    with updateTag_by_id [OF u1 m1, of uid ups2 t2]
    have "updateTag uid (doc_id d) ups2 t2 ?s1 =
            (True, s\<lparr>tags := modify_doc (doc_id d) ?f2 (modify_doc (doc_id d) ?f1 (tags s))\<rparr>)"
      by simp
    also have "modify_doc (doc_id d) ?f2 (modify_doc (doc_id d) ?f1 (tags s)) =
               modify_doc (doc_id d) (\<lambda>x. ?f2 (?f1 x)) (tags s)"
      by (rule modify_doc_twice) simp
    also have "\<dots> = modify_doc (doc_id d) (\<lambda>_. ?f2 (?f1 d)) (tags s)"
      by (rule modify_doc_const [OF assms(1,2)])
    finally have "updateTag uid (doc_id d) ups2 t2 (snd (updateTag uid (doc_id d) ups1 t1 s)) =
            (True, s\<lparr>tags := modify_doc (doc_id d) (\<lambda>_. ?f2 (?f1 d)) (tags s)\<rparr>)"
      by (simp add: first)
    with carries_apply_updates [of ups2 t2 "?f1 d"] show ?thesis by blast
  qed
qed

theorem concurrent_updates_converge_witness:
  "updateTag ''u1'' ''a'' (no_updates\<lparr>u_tag := Some ''two''\<rparr>) 200
     (snd (updateTag ''u1'' ''a'' (no_updates\<lparr>u_tag := Some ''one''\<rparr>) 150 db0)) =
     (True, db0\<lparr>tags := [tag_a\<lparr>tag := ''two'', updateTs := Some 200\<rparr>, tag_b]\<rparr>) \<and>
   updateTag ''u1'' ''a'' (no_updates\<lparr>u_tag := Some ''one''\<rparr>) 150
     (snd (updateTag ''u1'' ''a'' (no_updates\<lparr>u_tag := Some ''two''\<rparr>) 200 db0)) =
     (False, db0\<lparr>tags := [tag_a\<lparr>tag := ''two'', updateTs := Some 200\<rparr>, tag_b]\<rparr>) \<and>
   fst (updateTag ''u1'' ''a'' (no_updates\<lparr>u_tag := Some ''one''\<rparr>) 150 db0) \<and>
   carries (no_updates\<lparr>u_tag := Some ''two''\<rparr>) 200 (tag_a\<lparr>tag := ''two'', updateTs := Some 200\<rparr>)"
proof -
  have u: "unique_ids (tags db0)" by (simp add: unique_ids_def db0_def tag_a_def tag_b_def)
  have m: "tag_a \<in> set (tags db0)" by (simp add: db0_def)
  have o: "userId tag_a = ''u1''" by (simp add: tag_a_def)
  have a: "deleted tag_a = False" by (simp add: tag_a_def)
  have t: "(150::int) < 200" by simp
  have g: "updateTs tag_a = None \<or> lt_ts (updateTs tag_a) 200" by (simp add: tag_a_def lt_ts_def)
  have k: "u_deleted (no_updates\<lparr>u_tag := Some ''one''\<rparr>) \<noteq> Some True"
    by (simp add: no_updates_def)
  have w: "u_userId (no_updates\<lparr>u_tag := Some ''one''\<rparr>) = None \<or>
           u_userId (no_updates\<lparr>u_tag := Some ''one''\<rparr>) = Some ''u1''"
    by (simp add: no_updates_def)
  have i: "doc_id tag_a = ''a''" by (simp add: tag_a_def)
  from concurrent_updates_converge [OF u m o a t g k w, of "no_updates\<lparr>u_tag := Some ''two''\<rparr>"]
  show ?thesis
    by (simp add: i db0_def tag_a_def tag_b_def updateTag_def update_filter_def lt_ts_def
        apply_updates_def no_updates_def set_field_def carries_def)
qed

text \<open>
  Claim C3 as stated fails. On a record with \<^verbatim>\<open>updateTs = 100\<close>, the calls with timestamps
  50 and 60 are both rejected in either order and the stored \<^verbatim>\<open>updateTs\<close> stays 100. With
  timestamps 150 and 200, the call with 150 that arrives first is accepted and written: the
  call that loses has returned true. And a first call that sets \<^verbatim>\<open>deleted\<close> makes the later
  call with the higher timestamp fail.
\<close>

theorem stale_pair_counterexample:
  "(50::int) < 60 \<and> tag_a \<in> set (tags db0) \<and> deleted tag_a = False \<and> updateTs tag_a = Some 100 \<and>
   snd (updateTag ''u1'' ''a'' (no_updates\<lparr>u_tag := Some ''two''\<rparr>) 60
     (snd (updateTag ''u1'' ''a'' (no_updates\<lparr>u_tag := Some ''one''\<rparr>) 50 db0))) = db0 \<and>
   snd (updateTag ''u1'' ''a'' (no_updates\<lparr>u_tag := Some ''one''\<rparr>) 50
     (snd (updateTag ''u1'' ''a'' (no_updates\<lparr>u_tag := Some ''two''\<rparr>) 60 db0))) = db0 \<and>
   (150::int) < 200 \<and>
   updateTag ''u1'' ''a'' (no_updates\<lparr>u_tag := Some ''one''\<rparr>) 150 db0 =
     (True, db0\<lparr>tags := [tag_a\<lparr>tag := ''one'', updateTs := Some 150\<rparr>, tag_b]\<rparr>) \<and>
   updateTag ''u1'' ''a'' (no_updates\<lparr>u_tag := Some ''two''\<rparr>) 200
     (snd (updateTag ''u1'' ''a'' (no_updates\<lparr>u_deleted := Some True\<rparr>) 150 db0)) =
     (False, db0\<lparr>tags := [tag_a\<lparr>deleted := True, updateTs := Some 150\<rparr>, tag_b]\<rparr>)"
  by (simp add: db0_def tag_a_def tag_b_def updateTag_def update_filter_def lt_ts_def
      apply_updates_def no_updates_def set_field_def)

section \<open>Active, backup and sync reads\<close>

lemma apiFields_names:
  "split_names [] apiFields =
     [''_id'', ''dId'', ''lId'', ''userId'', ''tag'', ''deleted'', ''encKey'', ''encConfig'',
      ''createTs'', ''updateTs'', ''deleteTs'', ''schemaVersion'']"
  by (simp add: apiFields_def)

lemma project_apiFields: "project apiFields d = full_view d"
  by (simp add: project_def selected_def apiFields_names full_view_def)

lemma deleteSoftTag_by_id:
  assumes "unique_ids (tags s)" and "d \<in> set (tags s)"
  shows "deleteSoftTag uid (doc_id d) dts s =
           (if delete_filter uid (doc_id d) d
            then (True, s\<lparr>tags := modify_doc (doc_id d)
                                    (apply_updates (tombstone_updates dts)) (tags s)\<rparr>)
            else (False, s))"
proof -
  have "updateOne (delete_filter uid (doc_id d)) (tombstone_updates dts) (tags s) =
          (if delete_filter uid (doc_id d) d
           then (\<lparr>acknowledged = True, matchedCount = 1,
                  modifiedCount = (if apply_updates (tombstone_updates dts) d = d then 0 else 1)\<rparr>,
                 modify_doc (doc_id d) (apply_updates (tombstone_updates dts)) (tags s))
           else (\<lparr>acknowledged = True, matchedCount = 0, modifiedCount = 0\<rparr>, tags s))"
    by (rule updateOne_by_id [where flt = "delete_filter uid (doc_id d)", OF assms(1,2)])
      (rule delete_filter_only)
  then show ?thesis
    using delete_filter_changes [of uid "doc_id d" d dts] by (simp add: deleteSoftTag_def)
qed

lemma deleteSoftTag_accepts_iff:
  "fst (deleteSoftTag uid tid dts s) = (\<exists>x \<in> set (tags s). delete_filter uid tid x)"
proof (cases "\<exists>x \<in> set (tags s). delete_filter uid tid x")
  case True
  from updateOne_first [OF True, of "tombstone_updates dts"]
  obtain i where i: "delete_filter uid tid (tags s ! i)"
    "updateOne (delete_filter uid tid) (tombstone_updates dts) (tags s) =
       (\<lparr>acknowledged = True, matchedCount = 1,
         modifiedCount = (if apply_updates (tombstone_updates dts) (tags s ! i) = tags s ! i
                          then 0 else 1)\<rparr>,
        (tags s)[i := apply_updates (tombstone_updates dts) (tags s ! i)])"
    by blast
  have "fst (deleteSoftTag uid tid dts s)"
    using i(2) delete_filter_changes [OF i(1), of dts] by (simp add: deleteSoftTag_def)
  with True show ?thesis by simp
next
  case False
  then have "deleteSoftTag uid tid dts s = (False, s)"
    by (simp add: deleteSoftTag_def updateOne_miss)
  with False show ?thesis by simp
qed

lemma getAllTagsSync_eq:
  "getAllTagsSync uid s = Some (map full_view (filter (\<lambda>d. userId d = uid) (tags s)))"
proof -
  have "project apiFieldsSync = full_view"
    by (rule ext) (simp add: apiFieldsSync_def project_apiFields)
  then show ?thesis
    by (simp add: getAllTagsSync_def find_projected_def find_docs_def truthy_array_def)
qed

lemma getAllCurrentTags_eq:
  "getAllCurrentTags uid s =
     Some (map full_view (filter (\<lambda>d. userId d = uid \<and> deleted d = False) (tags s)))"
proof -
  have "project apiFields = full_view"
    by (rule ext) (rule project_apiFields)
  then show ?thesis
    by (simp add: getAllCurrentTags_def find_projected_def find_docs_def truthy_array_def)
qed

text \<open>
  Claim C6. After \<^verbatim>\<open>deleteSoftTag\<close> has succeeded on a record, \<^verbatim>\<open>getAllCurrentTags\<close> for that
  user no longer returns the record, and \<^verbatim>\<open>getAllTagsSync\<close> still returns it, with
  \<^verbatim>\<open>deleted = true\<close> and empty \<^verbatim>\<open>tag\<close>, \<^verbatim>\<open>encKey\<close> and \<^verbatim>\<open>encConfig\<close>. \<^verbatim>\<open>getAllTagsSync\<close> returns
  every record of the user, tombstones included.
\<close>

theorem tombstone_visible_to_sync_only:
  assumes "unique_ids (tags s)" and "fst (deleteSoftTag uid tid dts s)"
  shows "(\<exists>vs. getAllCurrentTags uid (snd (deleteSoftTag uid tid dts s)) = Some vs \<and>
            (\<forall>v \<in> set vs. v_id v \<noteq> Some tid)) \<and>
         (\<exists>ws. getAllTagsSync uid (snd (deleteSoftTag uid tid dts s)) = Some ws \<and>
            (\<exists>w \<in> set ws. v_id w = Some tid \<and> v_deleted w = Some True \<and> v_tag w = Some [] \<and>
                           v_encKey w = Some [] \<and> v_encConfig w = Some [])) \<and>
         (\<forall>uid' s'. getAllTagsSync uid' s' =
            Some (map full_view (filter (\<lambda>x. userId x = uid') (tags s'))))"
proof (intro conjI allI)
  let ?tomb = "apply_updates (tombstone_updates dts)"
  from assms(2) obtain d where d: "d \<in> set (tags s)" "delete_filter uid tid d"
    by (auto simp: deleteSoftTag_accepts_iff)
  then have id: "doc_id d = tid" by (simp add: delete_filter_def)
  have res: "snd (deleteSoftTag uid tid dts s) = s\<lparr>tags := modify_doc tid ?tomb (tags s)\<rparr>"
    using deleteSoftTag_by_id [OF assms(1) d(1), of uid dts] d(2) id by simp
  have gone: "deleted y = True" if "y \<in> set (modify_doc tid ?tomb (tags s))" "doc_id y = tid" for y
  proof -
    from that(1) have "y \<in> (\<lambda>x. if doc_id x = tid then ?tomb x else x) ` set (tags s)"
      by (simp add: modify_doc_def)
    then obtain x where "y = (if doc_id x = tid then ?tomb x else x)"
      by blast
    with that(2) have "y = ?tomb x" by (auto split: if_splits)
    then show ?thesis by (simp add: apply_tombstone)
  qed
  have "\<forall>v \<in> set (map full_view (filter (\<lambda>x. userId x = uid \<and> deleted x = False)
                        (modify_doc tid ?tomb (tags s)))). v_id v \<noteq> Some tid"
    using gone by (auto simp: full_view_def)
  then show "\<exists>vs. getAllCurrentTags uid (snd (deleteSoftTag uid tid dts s)) = Some vs \<and>
            (\<forall>v \<in> set vs. v_id v \<noteq> Some tid)"
    by (simp add: res getAllCurrentTags_eq)
  have "?tomb d \<in> set (modify_doc tid ?tomb (tags s))"
    using modify_doc_mem [OF d(1), of ?tomb] id by simp
  moreover have "userId (?tomb d) = uid"
    using d(2) by (simp add: apply_tombstone delete_filter_def)
  ultimately have "full_view (?tomb d) \<in>
      set (map full_view (filter (\<lambda>x. userId x = uid) (modify_doc tid ?tomb (tags s))))"
    by simp
  moreover have "v_id (full_view (?tomb d)) = Some tid \<and>
      v_deleted (full_view (?tomb d)) = Some True \<and> v_tag (full_view (?tomb d)) = Some [] \<and>
      v_encKey (full_view (?tomb d)) = Some [] \<and> v_encConfig (full_view (?tomb d)) = Some []"
    using id by (simp add: full_view_def apply_tombstone)
  ultimately show "\<exists>ws. getAllTagsSync uid (snd (deleteSoftTag uid tid dts s)) = Some ws \<and>
            (\<exists>w \<in> set ws. v_id w = Some tid \<and> v_deleted w = Some True \<and> v_tag w = Some [] \<and>
                           v_encKey w = Some [] \<and> v_encConfig w = Some [])"
    unfolding res getAllTagsSync_eq by (intro exI conjI bexI) (rule refl, auto)
next
  fix uid' s'
  show "getAllTagsSync uid' s' = Some (map full_view (filter (\<lambda>x. userId x = uid') (tags s')))"
    by (rule getAllTagsSync_eq)
qed

theorem tombstone_visible_to_sync_only_witness:
  "getAllCurrentTags ''u1'' (snd (deleteSoftTag ''u1'' ''a'' ''7'' db0)) = Some [full_view tag_b] \<and>
   getAllTagsSync ''u1'' (snd (deleteSoftTag ''u1'' ''a'' ''7'' db0)) =
     Some [full_view (tag_a\<lparr>tag := [], deleted := True, encKey := [], encConfig := [],
                            deleteTs := Some ''7''\<rparr>), full_view tag_b]"
proof -
  have u: "unique_ids (tags db0)" by (simp add: unique_ids_def db0_def tag_a_def tag_b_def)
  have r: "deleteSoftTag ''u1'' ''a'' ''7'' db0 =
     (True, db0\<lparr>tags := [tag_a\<lparr>tag := [], deleted := True, encKey := [], encConfig := [],
                              deleteTs := Some ''7''\<rparr>, tag_b]\<rparr>)"
    by (simp add: deleteSoftTag_def db0_def tag_a_def tag_b_def delete_filter_def apply_tombstone)
  have f: "fst (deleteSoftTag ''u1'' ''a'' ''7'' db0)" by (simp add: r)
  from tombstone_visible_to_sync_only [OF u f]
  show ?thesis
    unfolding r by (simp add: getAllCurrentTags_eq getAllTagsSync_eq db0_def tag_a_def tag_b_def)
qed

text \<open>
  Claim C10. \<^verbatim>\<open>getAllTagsForBackup\<close> returns the records of the user with \<^verbatim>\<open>deleted = false\<close>
  and no others, so no tombstone, and it returns each of them as stored, with no field
  selection.
\<close>

theorem backup_excludes_tombstones:
  "getAllTagsForBackup uid s =
     Some (filter (\<lambda>d. userId d = uid \<and> deleted d = False) (tags s)) \<and>
   (\<forall>ds. getAllTagsForBackup uid s = Some ds \<longrightarrow>
      (\<forall>d. d \<in> set ds \<longleftrightarrow> d \<in> set (tags s) \<and> userId d = uid \<and> deleted d = False))"
  by (auto simp: getAllTagsForBackup_def find_docs_def truthy_array_def)

theorem backup_excludes_tombstones_witness:
  "getAllTagsForBackup ''u1'' db1 = Some [tag_a] \<and> tag_gone \<in> set (tags db1) \<and>
   userId tag_gone = ''u1''"
  using backup_excludes_tombstones [of "''u1''" db1]
  by (simp add: db1_def tag_a_def tag_gone_def)

section \<open>Importing a batch\<close>

lemma length_stamped [simp]: "length (stamped clock json) = length json"
  by (induction json arbitrary: clock) auto

lemma stamped_nth:
  "k < length json \<Longrightarrow> stamped clock json ! k = import_doc (json ! k) (clock k)"
proof (induction json arbitrary: clock k)
  case Nil
  then show ?case by simp
next
  case (Cons t ts)
  then show ?case by (cases k) auto
qed

lemma import_loop_stamped:
  "import_loop admit clock (map (\<lambda>t. t\<lparr>updateTs := g t\<rparr>) json) success s =
   import_loop admit clock json success s"
proof (induction json arbitrary: clock success s)
  case Nil
  then show ?case by simp
next
  case (Cons t ts)
  have "import_doc (t\<lparr>updateTs := g t\<rparr>) (clock 0) = import_doc t (clock 0)"
    by (simp add: import_doc_def)
  with Cons show ?case by (simp add: Let_def split: prod.splits)
qed

lemma truthy_import_loop:
  "truthy (fst (import_loop admit clock json success s)) =
     (truthy success \<and> admits_all admit (tags s) (stamped clock json))"
proof (induction json arbitrary: clock success s)
  case Nil
  then show ?case by simp
next
  case (Cons t ts)
  show ?case
  proof (cases "admit (tags s) (import_doc t (clock 0))")
    case True
    then show ?thesis by (simp add: create_def Cons.IH Let_def)
  next
    case False
    then show ?thesis by (simp add: create_def Let_def)
  qed
qed

lemma import_loop_all:
  "admits_all admit (tags s) (stamped clock json) \<Longrightarrow> truthy success \<Longrightarrow>
   import_loop admit clock json success s =
     (if json = [] then success else JDoc (last (stamped clock json)),
      s\<lparr>tags := tags s @ stamped clock json\<rparr>)"
proof (induction json arbitrary: clock success s)
  case Nil
  then show ?case by simp
next
  case (Cons t ts)
  let ?d = "import_doc t (clock 0)"
  from Cons.prems have a: "admit (tags s) ?d"
    and rest: "admits_all admit (tags s @ [?d]) (stamped (\<lambda>k. clock (Suc k)) ts)"
    by simp_all
  have "import_loop admit (\<lambda>k. clock (Suc k)) ts (JDoc ?d) (s\<lparr>tags := tags s @ [?d]\<rparr>) =
     (if ts = [] then JDoc ?d else JDoc (last (stamped (\<lambda>k. clock (Suc k)) ts)),
      s\<lparr>tags := tags s @ [?d] @ stamped (\<lambda>k. clock (Suc k)) ts\<rparr>)"
    using Cons.IH [of "s\<lparr>tags := tags s @ [?d]\<rparr>" "\<lambda>k. clock (Suc k)" "JDoc ?d"] rest by simp
  then show ?case
    using a Cons.prems(2) by (cases ts) (simp_all add: create_def)
qed

lemma import_loop_stop:
  "admits_all admit (tags s) (stamped clock pre) \<Longrightarrow>
   \<not> admit (tags s @ stamped clock pre) (import_doc r (clock (length pre))) \<Longrightarrow>
   truthy success \<Longrightarrow>
   import_loop admit clock (pre @ r # post) success s =
     (JNull, s\<lparr>tags := tags s @ stamped clock pre\<rparr>)"
proof (induction pre arbitrary: clock success s)
  case Nil
  then show ?case by (simp add: create_def)
next
  case (Cons t ts)
  let ?d = "import_doc t (clock 0)"
  from Cons.prems have a: "admit (tags s) ?d"
    and rest: "admits_all admit (tags s @ [?d]) (stamped (\<lambda>k. clock (Suc k)) ts)"
    and stop: "\<not> admit (tags s @ [?d] @ stamped (\<lambda>k. clock (Suc k)) ts)
                  (import_doc r (clock (Suc (length ts))))"
    by simp_all
  have "import_loop admit (\<lambda>k. clock (Suc k)) (ts @ r # post) (JDoc ?d)
          (s\<lparr>tags := tags s @ [?d]\<rparr>) =
        (JNull, s\<lparr>tags := tags s @ [?d] @ stamped (\<lambda>k. clock (Suc k)) ts\<rparr>)"
    using Cons.IH [of "s\<lparr>tags := tags s @ [?d]\<rparr>" "\<lambda>k. clock (Suc k)" "JDoc ?d"] rest stop
    by simp
  then show ?case
    using a Cons.prems(3) by (simp add: create_def)
qed

text \<open>
  The walk of the batch. The records are inserted in order. At the first record that the
  store refuses, the loop ends with the null that \<^verbatim>\<open>create\<close> returned, the records before
  it stay in the collection, and the records after it are not handed to the store: the
  outcome does not mention them. The result is truthy exactly when the store took every
  record.
\<close>

lemma addTagsFromJson_control_flow:
  "(admits_all admit (tags s) (stamped clock pre) \<and>
    \<not> admit (tags s @ stamped clock pre) (import_doc r (clock (length pre))) \<longrightarrow>
      addTagsFromJson admit clock (pre @ r # post) s =
        (JNull, s\<lparr>tags := tags s @ stamped clock pre\<rparr>)) \<and>
   (admits_all admit (tags s) (stamped clock json) \<longrightarrow>
      truthy (fst (addTagsFromJson admit clock json s)) \<and>
      snd (addTagsFromJson admit clock json s) = s\<lparr>tags := tags s @ stamped clock json\<rparr>) \<and>
   truthy (fst (addTagsFromJson admit clock json s)) =
     admits_all admit (tags s) (stamped clock json)"
proof (intro conjI impI)
  assume "admits_all admit (tags s) (stamped clock pre) \<and>
    \<not> admit (tags s @ stamped clock pre) (import_doc r (clock (length pre)))"
  then show "addTagsFromJson admit clock (pre @ r # post) s =
        (JNull, s\<lparr>tags := tags s @ stamped clock pre\<rparr>)"
    by (simp add: addTagsFromJson_def import_loop_stop)
next
  show t: "truthy (fst (addTagsFromJson admit clock json s)) =
     admits_all admit (tags s) (stamped clock json)"
    by (simp add: addTagsFromJson_def truthy_import_loop)
  assume all: "admits_all admit (tags s) (stamped clock json)"
  then show "truthy (fst (addTagsFromJson admit clock json s))" by (simp add: t)
  from all show "snd (addTagsFromJson admit clock json s) =
      s\<lparr>tags := tags s @ stamped clock json\<rparr>"
    by (simp add: addTagsFromJson_def import_loop_all)
qed


text \<open>No batch makes the import return the boolean false.\<close>

lemma addTagsFromJson_never_false:
  "fst (addTagsFromJson admit clock json s) \<noteq> JBool False"
proof -
  have "fst (import_loop admit clock json success s) \<noteq> JBool False" if "success \<noteq> JBool False"
    for success
    using that
  proof (induction json arbitrary: clock success s)
    case Nil
    then show ?case by simp
  next
    case (Cons t ts)
    show ?case
    proof (cases "admit (tags s) (import_doc t (clock 0))")
      case True
      then show ?thesis
        using Cons.prems Cons.IH [of "JDoc (import_doc t (clock 0))"]
        by (simp add: create_def Let_def)
    next
      case False
      then show ?thesis using Cons.prems by (simp add: create_def Let_def)
    qed
  qed
  then show ?thesis by (simp add: addTagsFromJson_def)
qed

text \<open>
  Claim C7. The claim has \<^verbatim>\<open>addTagsFromJson\<close> return false when it stops at a failed insert
  and true when every record was inserted, as the comment \<^verbatim>\<open>@returns [true] or [false]\<close> and
  the type \<^verbatim>\<open>Promise<boolean>\<close> of the function say. The function returns the value left by
  \<^verbatim>\<open>success &&= doc\<close> instead. On the batch of three records whose second repeats the
  \<^verbatim>\<open>_id\<close> of the first, with a store that refuses a repeated \<^verbatim>\<open>_id\<close>, it keeps the first
  record, stops, and returns null, which is not false. On a batch of two records that the
  store takes, it returns the last document, which is not true.
\<close>

theorem addTagsFromJson_returns_null_or_document:
  "addTagsFromJson unique_admit tick [tag_a, tag_a, tag_b] db_empty =
     (JNull, \<lparr>tags = [tag_a\<lparr>updateTs := Some 1000\<rparr>], tagsShared = []\<rparr>) \<and>
   JNull \<noteq> JBool False \<and>
   addTagsFromJson unique_admit tick [tag_a, tag_b] db_empty =
     (JDoc (tag_b\<lparr>updateTs := Some 1001\<rparr>),
      \<lparr>tags = [tag_a\<lparr>updateTs := Some 1000\<rparr>, tag_b\<lparr>updateTs := Some 1001\<rparr>],
       tagsShared = []\<rparr>) \<and>
   JDoc (tag_b\<lparr>updateTs := Some 1001\<rparr>) \<noteq> JBool True"
  by (simp add: addTagsFromJson_def create_def unique_admit_def tick_def db_empty_def
      import_doc_def tag_a_def tag_b_def)

lemma import_doc_restamp: "import_doc t now = t\<lparr>updateTs := Some now\<rparr>"
  by (simp add: import_doc_def)

lemma stamped_eq_restamped: "stamped clock json = restamped clock json"
proof (rule nth_equalityI)
  show "length (stamped clock json) = length (restamped clock json)"
    by (simp add: restamped_def)
next
  fix k assume "k < length (stamped clock json)"
  then have k: "k < length json" by simp
  then show "stamped clock json ! k = restamped clock json ! k"
    by (simp add: stamped_nth restamped_def import_doc_restamp)
qed

lemma import_loop_admitted:
  "truthy success \<Longrightarrow>
   snd (import_loop admit clock json success s) =
     s\<lparr>tags := tags s @ take (admitted_count admit (tags s) (stamped clock json))
                            (stamped clock json)\<rparr>"
proof (induction json arbitrary: clock success s)
  case Nil
  then show ?case by simp
next
  case (Cons t ts)
  let ?d = "import_doc t (clock 0)"
  show ?case
  proof (cases "admit (tags s) ?d")
    case True
    have "snd (import_loop admit (\<lambda>k. clock (Suc k)) ts (JDoc ?d) (s\<lparr>tags := tags s @ [?d]\<rparr>)) =
        s\<lparr>tags := (tags s @ [?d]) @
           take (admitted_count admit (tags s @ [?d]) (stamped (\<lambda>k. clock (Suc k)) ts))
                (stamped (\<lambda>k. clock (Suc k)) ts)\<rparr>"
      using Cons.IH [of "JDoc ?d" "\<lambda>k. clock (Suc k)" "s\<lparr>tags := tags s @ [?d]\<rparr>"] by simp
    then show ?thesis
      using True Cons.prems by (simp add: create_def)
  next
    case False
    then show ?thesis using Cons.prems by (simp add: create_def)
  qed
qed

lemma admitted_count_all:
  "admits_all admit c ds \<Longrightarrow> admitted_count admit c ds = length ds"
  by (induction ds arbitrary: c) auto

lemma upt_3: "[0..<3] = [0, 1, 2]"
  by (simp add: upt_rec)

lemma upt_2: "[0..<2] = [0, 1]"
  by (simp add: upt_rec)

text \<open>
  Claim C9. What \<^verbatim>\<open>addTagsFromJson\<close> adds to the collection is, record for record, the
  batch with \<^verbatim>\<open>updateTs\<close> replaced by the value of \<^verbatim>\<open>Date.now()\<close> at the insert, up to the
  first record that the store refuses: all of it when the store takes every record. Each
  stored document so carries the clock value as \<^verbatim>\<open>updateTs\<close> and the \<^verbatim>\<open>_id\<close>, \<^verbatim>\<open>createTs\<close>,
  \<^verbatim>\<open>deleteTs\<close> and \<^verbatim>\<open>deleted\<close> of the imported record. The \<^verbatim>\<open>updateTs\<close> of the imported
  record is discarded: changing it changes neither the result nor the store.
\<close>

theorem addTagsFromJson_restamps_updateTs:
  "snd (addTagsFromJson admit clock json s) =
     s\<lparr>tags := tags s @ take (admitted_count admit (tags s) (restamped clock json))
                            (restamped clock json)\<rparr> \<and>
   (admits_all admit (tags s) (restamped clock json) \<longrightarrow>
      snd (addTagsFromJson admit clock json s) = s\<lparr>tags := tags s @ restamped clock json\<rparr>) \<and>
   length (restamped clock json) = length json \<and>
   (\<forall>k < length json.
      restamped clock json ! k = (json ! k)\<lparr>updateTs := Some (clock k)\<rparr> \<and>
      updateTs (restamped clock json ! k) = Some (clock k) \<and>
      doc_id (restamped clock json ! k) = doc_id (json ! k) \<and>
      createTs (restamped clock json ! k) = createTs (json ! k) \<and>
      deleteTs (restamped clock json ! k) = deleteTs (json ! k) \<and>
      deleted (restamped clock json ! k) = deleted (json ! k)) \<and>
   addTagsFromJson admit clock (map (\<lambda>t. t\<lparr>updateTs := g t\<rparr>) json) s =
     addTagsFromJson admit clock json s"
proof (intro conjI allI impI)
  show stored: "snd (addTagsFromJson admit clock json s) =
     s\<lparr>tags := tags s @ take (admitted_count admit (tags s) (restamped clock json))
                            (restamped clock json)\<rparr>"
    using import_loop_admitted [of "JBool True" admit clock json s]
    by (simp add: addTagsFromJson_def stamped_eq_restamped)
  show "length (restamped clock json) = length json"
    by (simp add: restamped_def)
  show "addTagsFromJson admit clock (map (\<lambda>t. t\<lparr>updateTs := g t\<rparr>) json) s =
     addTagsFromJson admit clock json s"
    by (simp add: addTagsFromJson_def import_loop_stamped)
  show "snd (addTagsFromJson admit clock json s) = s\<lparr>tags := tags s @ restamped clock json\<rparr>"
    if "admits_all admit (tags s) (restamped clock json)"
    using that stored by (simp add: admitted_count_all)
next
  fix k assume k: "k < length json"
  then show r: "restamped clock json ! k = (json ! k)\<lparr>updateTs := Some (clock k)\<rparr>"
    by (simp add: restamped_def)
  show "updateTs (restamped clock json ! k) = Some (clock k)" by (simp add: r)
  show "doc_id (restamped clock json ! k) = doc_id (json ! k)" by (simp add: r)
  show "createTs (restamped clock json ! k) = createTs (json ! k)" by (simp add: r)
  show "deleteTs (restamped clock json ! k) = deleteTs (json ! k)" by (simp add: r)
  show "deleted (restamped clock json ! k) = deleted (json ! k)" by (simp add: r)
qed

theorem addTagsFromJson_restamps_updateTs_witness:
  "tags (snd (addTagsFromJson unique_admit tick [tag_a, tag_b] db_empty)) =
     [tag_a\<lparr>updateTs := Some 1000\<rparr>, tag_b\<lparr>updateTs := Some 1001\<rparr>] \<and>
   tags (snd (addTagsFromJson unique_admit tick [tag_a, tag_a, tag_b] db_empty)) =
     [tag_a\<lparr>updateTs := Some 1000\<rparr>] \<and>
   updateTs tag_a = Some 100 \<and> updateTs tag_b = None \<and>
   addTagsFromJson unique_admit tick (map (\<lambda>t. t\<lparr>updateTs := Some 5\<rparr>) [tag_a, tag_b]) db_empty =
     addTagsFromJson unique_admit tick [tag_a, tag_b] db_empty"
  using addTagsFromJson_restamps_updateTs
    [of unique_admit tick "[tag_a, tag_b]" db_empty "\<lambda>t. Some 5"]
    addTagsFromJson_restamps_updateTs
    [of unique_admit tick "[tag_a, tag_a, tag_b]" db_empty "\<lambda>t. Some 5"]
  by (simp add: restamped_def upt_3 upt_2 unique_admit_def tick_def db_empty_def
      tag_a_def tag_b_def)

end
